theory Spec2Isabelle
  imports Main "HOL-Library.Monad_Syntax"
begin

section \<open>JavaScript values used by the library\<close>

text \<open>
  A JavaScript \<open>number\<close> that holds an integer or \<open>NaN\<close> is an \<open>int option\<close>, with
  \<open>None\<close> for \<open>NaN\<close>. The calendar fields, offsets and timestamps handled here are
  integral; the model covers the integers that a double holds exactly. A string is a
  \<open>string\<close> of ASCII characters; a value that may be \<open>undefined\<close> is an \<open>option\<close>.
  A thrown exception is the \<open>Inl\<close> branch of a sum.
\<close>

datatype error =
    DateTimeError string
  | DateTimeFormatterError string
  | TimeZoneError

definition digit_char :: "nat \<Rightarrow> char" where
  "digit_char n = ''0123456789'' ! n"

fun string_of_nat :: "nat \<Rightarrow> string" where
  "string_of_nat n =
     (if n < 10 then [digit_char n]
      else string_of_nat (n div 10) @ [digit_char (n mod 10)])"

declare string_of_nat.simps [simp del]

text \<open>The template literal \<open>`${value}`\<close> of an integral number or \<open>NaN\<close>.\<close>

definition Number_toString :: "int option \<Rightarrow> string" where
  "Number_toString value =
     (case value of
        None \<Rightarrow> ''NaN''
      | Some i \<Rightarrow> if i < 0 then CHR ''-'' # string_of_nat (nat (- i)) else string_of_nat (nat i))"

section \<open>The built-in Date object (ECMA-262, Date objects)\<close>

text \<open>
  \<open>DateTime\<close> computes with the platform's \<open>Date\<close>. Its abstract operations are
  written out here as ECMA-262 defines them, on mathematical integers; \<open>div\<close> and
  \<open>mod\<close> on \<open>int\<close> are the floor and the modulo of the standard.
\<close>

definition msPerDay :: int where "msPerDay = 86400000"
definition msPerHour :: int where "msPerHour = 3600000"
definition msPerMinute :: int where "msPerMinute = 60000"
definition msPerSecond :: int where "msPerSecond = 1000"

definition Day :: "int \<Rightarrow> int" where
  "Day t = t div msPerDay"

definition TimeWithinDay :: "int \<Rightarrow> int" where
  "TimeWithinDay t = t mod msPerDay"

definition DaysInYear :: "int \<Rightarrow> int" where
  "DaysInYear y =
     (if y mod 4 \<noteq> 0 then 365
      else if y mod 100 \<noteq> 0 then 366
      else if y mod 400 \<noteq> 0 then 365
      else 366)"

definition DayFromYear :: "int \<Rightarrow> int" where
  "DayFromYear y =
     365 * (y - 1970) + (y - 1969) div 4 - (y - 1901) div 100 + (y - 1601) div 400"


text \<open>
  The standard defines \<open>YearFromTime(t)\<close> as the largest \<open>y\<close> with
  \<open>TimeFromYear(y) \<le> t\<close>. It is computed here from an estimate that is off by at most
  one year; lemma \<open>YearFromTime_largest\<close> below shows that this is the standard's year.
\<close>

definition YearFromTime :: "int \<Rightarrow> int" where
  "YearFromTime t =
     (let d = Day t; y = 1970 + (400 * d) div 146097
      in if d < DayFromYear y then y - 1
         else if DayFromYear (y + 1) \<le> d then y + 1
         else y)"

definition InLeapYear :: "int \<Rightarrow> int" where
  "InLeapYear t = (if DaysInYear (YearFromTime t) = 366 then 1 else 0)"

definition DayWithinYear :: "int \<Rightarrow> int" where
  "DayWithinYear t = Day t - DayFromYear (YearFromTime t)"

definition MonthFromTime :: "int \<Rightarrow> int" where
  "MonthFromTime t =
     (let d = DayWithinYear t; l = InLeapYear t
      in if d < 31 then 0
         else if d < 59 + l then 1
         else if d < 90 + l then 2
         else if d < 120 + l then 3
         else if d < 151 + l then 4
         else if d < 181 + l then 5
         else if d < 212 + l then 6
         else if d < 243 + l then 7
         else if d < 273 + l then 8
         else if d < 304 + l then 9
         else if d < 334 + l then 10
         else 11)"

definition DateFromTime :: "int \<Rightarrow> int" where
  "DateFromTime t =
     (let d = DayWithinYear t; l = InLeapYear t; m = MonthFromTime t
      in if m = 0 then d + 1
         else if m = 1 then d - 30
         else if m = 2 then d - 58 - l
         else if m = 3 then d - 89 - l
         else if m = 4 then d - 119 - l
         else if m = 5 then d - 150 - l
         else if m = 6 then d - 180 - l
         else if m = 7 then d - 211 - l
         else if m = 8 then d - 242 - l
         else if m = 9 then d - 272 - l
         else if m = 10 then d - 303 - l
         else d - 333 - l)"

definition WeekDay :: "int \<Rightarrow> int" where
  "WeekDay t = (Day t + 4) mod 7"

definition HourFromTime :: "int \<Rightarrow> int" where
  "HourFromTime t = (t div msPerHour) mod 24"

definition MinFromTime :: "int \<Rightarrow> int" where
  "MinFromTime t = (t div msPerMinute) mod 60"

definition SecFromTime :: "int \<Rightarrow> int" where
  "SecFromTime t = (t div msPerSecond) mod 60"

definition msFromTime :: "int \<Rightarrow> int" where
  "msFromTime t = t mod msPerSecond"

definition MakeTime :: "int \<Rightarrow> int \<Rightarrow> int \<Rightarrow> int \<Rightarrow> int" where
  "MakeTime hour minute sec ms = hour * msPerHour + minute * msPerMinute + sec * msPerSecond + ms"

text \<open>The number of days from the start of a year to the start of its month \<open>mn\<close> (0 to 11).\<close>

definition DayFromMonth :: "int \<Rightarrow> int \<Rightarrow> int" where
  "DayFromMonth mn l =
     (if mn = 0 then 0
      else if mn = 1 then 31
      else if mn = 2 then 59 + l
      else if mn = 3 then 90 + l
      else if mn = 4 then 120 + l
      else if mn = 5 then 151 + l
      else if mn = 6 then 181 + l
      else if mn = 7 then 212 + l
      else if mn = 8 then 243 + l
      else if mn = 9 then 273 + l
      else if mn = 10 then 304 + l
      else 334 + l)"

text \<open>
  \<open>MakeDay(year, month, date)\<close>: the standard asks for a time \<open>t\<close> whose year is
  \<open>ym\<close>, whose month is \<open>mn\<close> and whose date is 1, and returns \<open>Day(t) + date - 1\<close>.
  That \<open>t\<close> is the first day of month \<open>mn\<close> of year \<open>ym\<close> (lemma \<open>MakeDay_finds\<close>).
\<close>

definition MakeDay :: "int \<Rightarrow> int \<Rightarrow> int \<Rightarrow> int" where
  "MakeDay year month date =
     (let ym = year + month div 12; mn = month mod 12
      in DayFromYear ym + DayFromMonth mn (if DaysInYear ym = 366 then 1 else 0) + date - 1)"

definition MakeDate :: "int \<Rightarrow> int \<Rightarrow> int" where
  "MakeDate day time = day * msPerDay + time"

definition TimeClip :: "int option \<Rightarrow> int option" where
  "TimeClip time =
     (case time of
        None \<Rightarrow> None
      | Some t \<Rightarrow> if \<bar>t\<bar> > 8640000000000000 then None else Some t)"

text \<open>
  A \<open>Date\<close> object is its time value (\<open>None\<close> for an invalid date). \<open>new Date()\<close> reads
  the clock, which is a parameter of the model.
\<close>

definition Date_new :: "int option \<Rightarrow> int option" where
  "Date_new value = TimeClip value"

definition Date_now :: "int \<Rightarrow> int option" where
  "Date_now clock = TimeClip (Some clock)"

text \<open>
  The setters take numbers; an argument that is \<open>NaN\<close> makes \<open>MakeDay\<close> or
  \<open>MakeTime\<close>, and so the date, \<open>NaN\<close>. \<open>setUTCFullYear\<close> starts from time 0 when the
  date is invalid; \<open>setUTCHours\<close> leaves an invalid date invalid.
\<close>

definition setUTCFullYear ::
  "int option \<Rightarrow> int option \<Rightarrow> int option \<Rightarrow> int option \<Rightarrow> int option" where
  "setUTCFullYear tv year month date =
     (let t = (case tv of None \<Rightarrow> 0 | Some t \<Rightarrow> t)
      in case (year, month, date) of
           (Some y, Some m, Some dt) \<Rightarrow>
             TimeClip (Some (MakeDate (MakeDay y m dt) (TimeWithinDay t)))
         | _ \<Rightarrow> None)"

definition setUTCHours ::
  "int option \<Rightarrow> int option \<Rightarrow> int option \<Rightarrow> int option \<Rightarrow> int option \<Rightarrow> int option" where
  "setUTCHours tv hour minute sec ms =
     (case tv of
        None \<Rightarrow> None
      | Some t \<Rightarrow>
          (case (hour, minute, sec, ms) of
             (Some h, Some m, Some s, Some milli) \<Rightarrow>
               TimeClip (Some (MakeDate (Day t) (MakeTime h m s milli)))
           | _ \<Rightarrow> None))"

definition getUTCFullYear :: "int option \<Rightarrow> int option" where
  "getUTCFullYear tv = map_option YearFromTime tv"

definition getUTCMonth :: "int option \<Rightarrow> int option" where
  "getUTCMonth tv = map_option MonthFromTime tv"

definition getUTCDate :: "int option \<Rightarrow> int option" where
  "getUTCDate tv = map_option DateFromTime tv"

definition getUTCDay :: "int option \<Rightarrow> int option" where
  "getUTCDay tv = map_option WeekDay tv"

definition getUTCHours :: "int option \<Rightarrow> int option" where
  "getUTCHours tv = map_option HourFromTime tv"

definition getUTCMinutes :: "int option \<Rightarrow> int option" where
  "getUTCMinutes tv = map_option MinFromTime tv"

definition getUTCSeconds :: "int option \<Rightarrow> int option" where
  "getUTCSeconds tv = map_option SecFromTime tv"

definition getUTCMilliseconds :: "int option \<Rightarrow> int option" where
  "getUTCMilliseconds tv = map_option msFromTime tv"

section \<open>TimeZone\<close>

text \<open>
  Modelled from the spec: the \<open>TimeZone\<close> class (TimeZone.ts) is not among the sources.
  The spec gives it one attribute, \<open>offset\<close>, in signed integer minutes relative to UTC,
  and a constant \<open>utc\<close> of offset 0.
\<close>

record TimeZone =
  offset :: int

definition utc :: TimeZone where
  "utc = \<lparr>offset = 0\<rparr>"

section \<open>DateTime\<close>

record DateTime =
  m_timestamp :: "int option"
  m_year :: "int option"
  m_month :: "int option"
  m_day :: "int option"
  m_weekday :: "int option"
  m_hour :: "int option"
  m_minute :: "int option"
  m_second :: "int option"
  m_ms :: "int option"
  m_timezone :: TimeZone

text \<open>
  The private constructor. The getters \<open>timestamp\<close>, \<open>year\<close>, \<open>month\<close>, \<open>day\<close>,
  \<open>weekday\<close>, \<open>hour\<close>, \<open>minute\<close>, \<open>second\<close>, \<open>ms\<close> and \<open>timeZone\<close> return the
  fields \<open>m_timestamp\<close> to \<open>m_timezone\<close> as they are. The enumeration \<open>Weekday\<close> is
  numeric, from \<open>Sunday = 0\<close> to \<open>Saturday = 6\<close>, and \<open>m_weekday\<close> holds the number that
  \<open>getUTCDay\<close> returns. The field \<open>m_formatter\<close> only caches a formatter and is left out.
\<close>

definition DateTime_new :: "int option \<Rightarrow> TimeZone \<Rightarrow> DateTime" where
  "DateTime_new timestamp timeZone =
     (let date = Date_new (map_option (\<lambda>t. t + offset timeZone * 60 * 1000) timestamp)
      in \<lparr>m_timestamp = timestamp,
          m_year = getUTCFullYear date,
          m_month = map_option (\<lambda>m. m + 1) (getUTCMonth date),
          m_day = getUTCDate date,
          m_weekday = getUTCDay date,
          m_hour = getUTCHours date,
          m_minute = getUTCMinutes date,
          m_second = getUTCSeconds date,
          m_ms = getUTCMilliseconds date,
          m_timezone = timeZone\<rparr>)"


text \<open>
  Arithmetic and comparison of numbers: \<open>%\<close> takes the sign of the dividend, and a
  comparison with \<open>NaN\<close> is false.
\<close>

definition js_rem :: "int option \<Rightarrow> int \<Rightarrow> int option" where
  "js_rem a b =
     (case a of
        None \<Rightarrow> None
      | Some x \<Rightarrow> Some (if x < 0 then - ((- x) mod \<bar>b\<bar>) else x mod \<bar>b\<bar>))"

definition js_le :: "int option \<Rightarrow> int option \<Rightarrow> bool" where
  "js_le a b = (case (a, b) of (Some x, Some y) \<Rightarrow> x \<le> y | _ \<Rightarrow> False)"

definition js_lt :: "int option \<Rightarrow> int option \<Rightarrow> bool" where
  "js_lt a b = (case (a, b) of (Some x, Some y) \<Rightarrow> x < y | _ \<Rightarrow> False)"

definition isValidYear :: "int option \<Rightarrow> bool" where
  "isValidYear year = js_le (Some 0) year"

definition isValidMonth :: "int option \<Rightarrow> bool" where
  "isValidMonth month = (js_le (Some 1) month \<and> js_le month (Some 12))"

definition isValidDay :: "int option \<Rightarrow> int option \<Rightarrow> int option \<Rightarrow> bool" where
  "isValidDay day month year =
     (let maxDay =
        (if month = Some 2 then
           (if Some 0 = js_rem year 4 \<and> (Some 0 \<noteq> js_rem year 100 \<or> Some 0 = js_rem year 400)
            then 29 else 28)
         else if month = Some 9 \<or> month = Some 4 \<or> month = Some 6 \<or> month = Some 11 then 30
         else 31)
      in js_le (Some 1) day \<and> js_le day (Some maxDay))"

definition isValidHour :: "int option \<Rightarrow> bool" where
  "isValidHour hour = (js_le (Some 0) hour \<and> js_le hour (Some 23))"

definition isValidMinute :: "int option \<Rightarrow> bool" where
  "isValidMinute minute = (js_le (Some 0) minute \<and> js_le minute (Some 59))"

definition isValidSecond :: "int option \<Rightarrow> bool" where
  "isValidSecond second = (js_le (Some 0) second \<and> js_le second (Some 59))"

definition isValidMs :: "int option \<Rightarrow> bool" where
  "isValidMs ms = (js_le (Some 0) ms \<and> js_le ms (Some 999))"

definition fromTimestamp :: "int \<Rightarrow> TimeZone \<Rightarrow> DateTime" where
  "fromTimestamp timestamp timeZone = DateTime_new (Some timestamp) timeZone"

text \<open>
  \<open>fromDateTime\<close>; \<open>clock\<close> is the time that \<open>new Date()\<close> reads. The defaults of the
  source are \<open>ms = 0\<close> and \<open>timeZone = utc\<close>.
\<close>

definition fromDateTime ::
  "int \<Rightarrow> int option \<Rightarrow> int option \<Rightarrow> int option \<Rightarrow> int option \<Rightarrow> int option \<Rightarrow> int option
     \<Rightarrow> int option \<Rightarrow> TimeZone \<Rightarrow> error + DateTime" where
  "fromDateTime clock year month day hour minute second ms timeZone =
     (if \<not> isValidYear year then
        Inl (DateTimeError (''Expected valid year, found '' @ Number_toString year @ ''.''))
      else if \<not> isValidMonth month then
        Inl (DateTimeError (''Expected valid month, found '' @ Number_toString month @ ''.''))
      else if \<not> isValidDay day month year then
        Inl (DateTimeError (''Expected valid day, found '' @ Number_toString day @ ''.''))
      else if \<not> isValidHour hour then
        Inl (DateTimeError (''Expected valid hour, found '' @ Number_toString hour @ ''.''))
      else if \<not> isValidMinute minute then
        Inl (DateTimeError (''Expected valid minute, found '' @ Number_toString minute @ ''.''))
      else if \<not> isValidSecond second then
        Inl (DateTimeError (''Expected valid second, found '' @ Number_toString second @ ''.''))
      else if \<not> isValidMs ms then
        Inl (DateTimeError (''Expected valid ms, found '' @ Number_toString ms @ ''.''))
      else
        (let date0 = Date_now clock;
             date1 = setUTCFullYear date0 year (map_option (\<lambda>m. m - 1) month) day;
             date2 = setUTCHours date1 hour minute second ms
         in Inr (DateTime_new (map_option (\<lambda>t. t - offset timeZone * 60 * 1000) date2) timeZone)))"


section \<open>DateTimeFormatter\<close>

text \<open>
  \<open>Number.parseInt(string)\<close> without a radix: leading white space (of ASCII here) is
  dropped, a sign is read, a prefix \<open>0x\<close> or \<open>0X\<close> selects radix 16, and the longest run
  of digits of the radix is the value; no digit gives \<open>NaN\<close>.
\<close>

definition orElse :: "'a option \<Rightarrow> 'a \<Rightarrow> 'a" where
  "orElse a d = (case a of None \<Rightarrow> d | Some v \<Rightarrow> v)"

definition isWhiteSpace :: "char \<Rightarrow> bool" where
  "isWhiteSpace c = (c \<in> set [CHR 0x09, CHR 0x0A, CHR 0x0B, CHR 0x0C, CHR 0x0D, CHR 0x20])"

definition digit_value :: "char \<Rightarrow> nat option" where
  "digit_value c =
     (let n = (of_char c :: nat)
      in if 48 \<le> n \<and> n \<le> 57 then Some (n - 48)
         else if 97 \<le> n \<and> n \<le> 122 then Some (n - 87)
         else if 65 \<le> n \<and> n \<le> 90 then Some (n - 55)
         else None)"

definition isRadixDigit :: "nat \<Rightarrow> char \<Rightarrow> bool" where
  "isRadixDigit radix c = (case digit_value c of None \<Rightarrow> False | Some v \<Rightarrow> v < radix)"

definition parseInt :: "string \<Rightarrow> int option" where
  "parseInt inputString =
     (let s = dropWhile isWhiteSpace inputString;
          sign = (case s of c # _ \<Rightarrow> if c = CHR ''-'' then - 1 else 1 | [] \<Rightarrow> (1 :: int));
          s1 = (case s of c # r \<Rightarrow> if c = CHR ''+'' \<or> c = CHR ''-'' then r else s | [] \<Rightarrow> s);
          hex = (case s1 of
                   a # b # _ \<Rightarrow> a = CHR ''0'' \<and> (b = CHR ''x'' \<or> b = CHR ''X'')
                 | _ \<Rightarrow> False);
          radix = (if hex then 16 else 10);
          s2 = (if hex then drop 2 s1 else s1);
          z = takeWhile (isRadixDigit radix) s2
      in if z = [] then None
         else Some (sign * int (foldl (\<lambda>acc c. acc * radix + (case digit_value c of None \<Rightarrow> 0 | Some v \<Rightarrow> v)) 0 z)))"

text \<open>\<open>pad\<close>: the loop prepends \<open>ch[0]\<close> while the remaining length is positive.\<close>

function pad_loop :: "string \<Rightarrow> int \<Rightarrow> string \<Rightarrow> string" where
  "pad_loop str len ch0 = (if 0 < len then pad_loop (ch0 @ str) (len - 1) ch0 else str)"
  by pat_completeness auto
termination
  by (relation "measure (\<lambda>(str, len, ch0). nat len)") auto

declare pad_loop.simps [simp del]

definition pad :: "int option \<Rightarrow> int option \<Rightarrow> string \<Rightarrow> string" where
  "pad value len ch =
     (let str = Number_toString value;
          ch0 = (case ch of [] \<Rightarrow> ''undefined'' | c # _ \<Rightarrow> [c])
      in case len of
           None \<Rightarrow> str
         | Some l \<Rightarrow> pad_loop str (l - int (length str)) ch0)"

type_synonym ComponentFormatter = "DateTime \<Rightarrow> string option \<Rightarrow> string"

type_synonym ComponentFormatterMap = "(string \<times> ComponentFormatter) list"

text \<open>
  \<open>PlaceholderMatcher\<close> is the regular expression \<^verbatim>\<open>/\{([^}]+)(?::([^}]+))?}/\<close>. The
  matcher below tries what the backtracking engine tries, in its order: the leftmost
  start, each \<^verbatim>\<open>[^}]+\<close> as long as possible first, the optional group taken before it is
  skipped.
\<close>

definition notClose :: "char \<Rightarrow> bool" where
  "notClose c = (c \<noteq> CHR ''}'')"

definition greedy_lengths :: "string \<Rightarrow> nat list" where
  "greedy_lengths s = rev [1..<Suc (length (takeWhile notClose s))]"

definition match_close :: "string \<Rightarrow> bool" where
  "match_close s = (case s of [] \<Rightarrow> False | c # _ \<Rightarrow> c = CHR ''}'')"

text \<open>\<^verbatim>\<open>(?::([^}]+))?}\<close> at the head of \<open>s\<close>: the second group and the length of the match.\<close>

definition match_args_close :: "string \<Rightarrow> (string option \<times> nat) option" where
  "match_args_close s =
     (case (case s of
              [] \<Rightarrow> None
            | c # r \<Rightarrow>
                if c = CHR '':'' then find (\<lambda>n. match_close (drop n r)) (greedy_lengths r)
                else None) of
        Some n \<Rightarrow> Some (Some (take n (tl s)), n + 2)
      | None \<Rightarrow> if match_close s then Some (None, 1) else None)"

text \<open>The whole pattern at the head of \<open>s\<close>: the match, the first group, the second group.\<close>

definition match_here :: "string \<Rightarrow> (string \<times> string \<times> string option) option" where
  "match_here s =
     (case s of
        [] \<Rightarrow> None
      | c # r \<Rightarrow>
          if c = CHR ''{'' then
            (case find (\<lambda>n. match_args_close (drop n r) \<noteq> None) (greedy_lengths r) of
               None \<Rightarrow> None
             | Some n \<Rightarrow>
                 (case match_args_close (drop n r) of
                    None \<Rightarrow> None
                  | Some (args, k) \<Rightarrow> Some (take (1 + n + k) s, take n r, args)))
          else None)"

fun exec_from :: "nat \<Rightarrow> string \<Rightarrow> (nat \<times> string \<times> string \<times> string option) option" where
  "exec_from i [] = None"
| "exec_from i (c # cs) =
     (case match_here (c # cs) of
        Some (m, formatter, args) \<Rightarrow> Some (i, m, formatter, args)
      | None \<Rightarrow> exec_from (Suc i) cs)"

definition PlaceholderMatcher_exec ::
  "string \<Rightarrow> (nat \<times> string \<times> string \<times> string option) option" where
  "PlaceholderMatcher_exec s = exec_from 0 s"

definition formatStringIso8601 :: string where
  "formatStringIso8601 = ''{Y}-{M}-{D}T{h}:{m}:{s}.{ms}{Z}''"

text \<open>The component formatters of \<open>createInternalFormatters\<close>; \<open>args ?? d\<close> is \<open>orElse args d\<close>.\<close>

definition formatter_brace :: ComponentFormatter where
  "formatter_brace dateTime args = ''{''"

definition formatter_Y :: ComponentFormatter where
  "formatter_Y dateTime args = pad (js_rem (m_year dateTime) 10000) (Some 4) ''0''"

definition formatter_y :: ComponentFormatter where
  "formatter_y dateTime args = pad (js_rem (m_year dateTime) 100) (Some 2) ''0''"

definition formatter_year :: ComponentFormatter where
  "formatter_year dateTime args =
     (let digits = parseInt (orElse args ''4'');
          year = pad (m_year dateTime) digits ''0''
      in if js_lt digits (Some (int (length year)))
         then drop (nat (int (length year) - orElse digits 0)) year
         else year)"

definition formatter_M :: ComponentFormatter where
  "formatter_M dateTime args = pad (m_month dateTime) (Some 2) ''0''"

definition formatter_month :: ComponentFormatter where
  "formatter_month dateTime args = pad (m_month dateTime) (parseInt (orElse args ''1'')) ''0''"

definition formatter_D :: ComponentFormatter where
  "formatter_D dateTime args = pad (m_day dateTime) (Some 2) ''0''"

definition formatter_day :: ComponentFormatter where
  "formatter_day dateTime args = pad (m_day dateTime) (parseInt (orElse args ''1'')) ''0''"

definition formatter_h :: ComponentFormatter where
  "formatter_h dateTime args = pad (m_hour dateTime) (Some 2) ''0''"

definition formatter_hour :: ComponentFormatter where
  "formatter_hour dateTime args = pad (m_hour dateTime) (parseInt (orElse args ''1'')) ''0''"

definition formatter_m :: ComponentFormatter where
  "formatter_m dateTime args = pad (m_minute dateTime) (Some 2) ''0''"

definition formatter_minute :: ComponentFormatter where
  "formatter_minute dateTime args = pad (m_minute dateTime) (parseInt (orElse args ''1'')) ''0''"

definition formatter_s :: ComponentFormatter where
  "formatter_s dateTime args = pad (m_second dateTime) (Some 2) ''0''"

definition formatter_second :: ComponentFormatter where
  "formatter_second dateTime args = pad (m_second dateTime) (parseInt (orElse args ''1'')) ''0''"

definition formatter_ms :: ComponentFormatter where
  "formatter_ms dateTime args = pad (m_second dateTime) (parseInt (orElse args ''1'')) ''0''"

definition formatter_Z :: ComponentFormatter where
  "formatter_Z dateTime args =
     (if 0 > offset (m_timezone dateTime) then ''-'' else ''+'')
     @ pad (Some (\<bar>offset (m_timezone dateTime)\<bar> div 60)) (Some 2) ''0''
     @ '':''
     @ pad (Some (\<bar>offset (m_timezone dateTime)\<bar> mod 60)) (Some 2) ''0''"

definition formatter_z :: ComponentFormatter where
  "formatter_z dateTime args =
     (if 0 > offset (m_timezone dateTime) then ''-'' else ''+'')
     @ pad (Some (\<bar>offset (m_timezone dateTime)\<bar> div 60)) (Some 2) ''0''
     @ pad (Some (\<bar>offset (m_timezone dateTime)\<bar> mod 60)) (Some 2) ''0''"

text \<open>
  The weekday formatter returns nothing for a weekday outside 0 to 6; \<open>format\<close> then
  appends the text \<open>undefined\<close>.
\<close>

definition formatter_weekday :: ComponentFormatter where
  "formatter_weekday dateTime args =
     (let w = m_weekday dateTime
      in if args = Some ''short'' \<and> w = Some 0 then ''Sun''
         else if args = Some ''short'' \<and> w = Some 1 then ''Mon''
         else if args = Some ''short'' \<and> w = Some 2 then ''Tue''
         else if args = Some ''short'' \<and> w = Some 3 then ''Wed''
         else if args = Some ''short'' \<and> w = Some 4 then ''Thu''
         else if args = Some ''short'' \<and> w = Some 5 then ''Fri''
         else if args = Some ''short'' \<and> w = Some 6 then ''Sat''
         else if w = Some 0 then ''Sunday''
         else if w = Some 1 then ''Monday''
         else if w = Some 2 then ''Tuesday''
         else if w = Some 3 then ''Wednesday''
         else if w = Some 4 then ''Thursday''
         else if w = Some 5 then ''Friday''
         else if w = Some 6 then ''Saturday''
         else ''undefined'')"

definition createInternalFormatters :: ComponentFormatterMap where
  "createInternalFormatters =
     [(''{'', formatter_brace),
      (''Y'', formatter_Y),
      (''y'', formatter_y),
      (''year'', formatter_year),
      (''M'', formatter_M),
      (''month'', formatter_month),
      (''D'', formatter_D),
      (''day'', formatter_day),
      (''h'', formatter_h),
      (''hour'', formatter_hour),
      (''m'', formatter_m),
      (''minute'', formatter_minute),
      (''s'', formatter_s),
      (''second'', formatter_second),
      (''ms'', formatter_ms),
      (''Z'', formatter_Z),
      (''z'', formatter_z),
      (''weekday'', formatter_weekday)]"

text \<open>
  The registry \<open>DateTimeFormatter.formatters\<close> is static state, passed explicitly, as
  the list of its own entries; a lookup finds these entries only (the names that a
  JavaScript object inherits, such as \<open>constructor\<close>, are not modelled). The constructor
  fills an empty registry with the internal formatters.
\<close>

definition DateTimeFormatter_new :: "ComponentFormatterMap \<Rightarrow> ComponentFormatterMap" where
  "DateTimeFormatter_new formatters =
     (case formatters of [] \<Rightarrow> createInternalFormatters | _ # _ \<Rightarrow> formatters)"

definition addFormatter ::
  "ComponentFormatterMap \<Rightarrow> string \<Rightarrow> ComponentFormatter \<Rightarrow> error + ComponentFormatterMap" where
  "addFormatter formatters specifier formatter =
     (case map_of formatters specifier of
        Some _ \<Rightarrow>
          Inl (DateTimeFormatterError (''Format specifier '' @ specifier @ '' is already taken.''))
      | None \<Rightarrow> Inr (formatters @ [(specifier, formatter)]))"

text \<open>
  The loop of \<open>format\<close>: \<open>fmt\<close> is the rest of the format string, \<open>str\<close> the output so
  far.
\<close>

function format_loop ::
  "ComponentFormatterMap \<Rightarrow> DateTime \<Rightarrow> string \<Rightarrow> string \<Rightarrow> error + string" where
  "format_loop formatters dateTime fmt str =
     (case PlaceholderMatcher_exec fmt of
        None \<Rightarrow> Inr (str @ fmt)
      | Some (index, match, formatter, args) \<Rightarrow>
          (case map_of formatters formatter of
             None \<Rightarrow>
               Inl (DateTimeFormatterError
                 (''Undefined component formatter '' @ [CHR 0x27] @ formatter @ [CHR 0x27] @ ''.''))
           | Some f \<Rightarrow>
               format_loop formatters dateTime (drop (index + length match) fmt)
                 (str @ take index fmt @ f dateTime args)))"
  by pat_completeness auto
termination
proof (relation "measure (\<lambda>(formatters, dateTime, fmt, str). length fmt)")
  show "wf (measure (\<lambda>(formatters, dateTime, fmt, str). length fmt))"
    by simp
next
  fix formatters :: ComponentFormatterMap
  fix dateTime :: DateTime
  fix fmt str :: string
  fix x2 index y match ya formatter args f
  assume ex: "PlaceholderMatcher_exec fmt = Some x2"
    and x2: "(index, y) = x2" "(match, ya) = y" "(formatter, args) = ya"
  have here: "match_here s = Some (m, g, a) \<Longrightarrow> m \<noteq> [] \<and> s \<noteq> []" for s m g a
    by (auto simp: match_here_def split: list.splits if_splits option.splits)
  have found: "exec_from i s = Some (j, m, g, a) \<Longrightarrow> m \<noteq> [] \<and> s \<noteq> []" for i j s m g a
  proof (induction s arbitrary: i)
    case Nil
    then show ?case by simp
  next
    case (Cons c cs)
    then show ?case
      using here [of "c # cs"] by (auto split: option.splits)
  qed
  have "exec_from 0 fmt = Some (index, match, formatter, args)"
    using ex x2 by (auto simp: PlaceholderMatcher_exec_def)
  then have "match \<noteq> [] \<and> fmt \<noteq> []"
    by (rule found)
  then show "((formatters, dateTime, drop (index + length match) fmt,
               str @ take index fmt @ f dateTime args),
              (formatters, dateTime, fmt, str))
             \<in> measure (\<lambda>(formatters, dateTime, fmt, str). length fmt)"
    by (cases fmt) auto
qed

declare format_loop.simps [simp del]

definition format :: "ComponentFormatterMap \<Rightarrow> string \<Rightarrow> DateTime \<Rightarrow> error + string" where
  "format formatters formatString dateTime = format_loop formatters dateTime formatString []"

text \<open>
  \<open>toISOString\<close>: the \<open>formatter\<close> getter constructs a \<open>DateTimeFormatter\<close> (which fills
  the registry when it is empty), the format string is set and the date is formatted.
\<close>

definition toISOString :: "ComponentFormatterMap \<Rightarrow> DateTime \<Rightarrow> error + string" where
  "toISOString formatters this =
     format (DateTimeFormatter_new formatters) formatStringIso8601 this"

section \<open>DateTime.parse\<close>

text \<open>
  The regular expression of \<open>parse\<close> is
  \<^verbatim>\<open>/^(\d{4})-(\d{2})-(\d{2})T(\d{2}):(\d{2}):(\d{2})(?:\.(\d{3}))?([+-]?\d{2}:?\d{2})$/\<close>.
  Each piece consumes a prefix of the input and returns the rest; an optional piece is
  tried first with the item and then without it, as the backtracking engine does.
\<close>

definition isDigit :: "char \<Rightarrow> bool" where
  "isDigit c = (c \<in> set ''0123456789'')"

definition digits :: "nat \<Rightarrow> string \<Rightarrow> (string \<times> string) option" where
  "digits n s =
     (if n \<le> length s \<and> list_all isDigit (take n s) then Some (take n s, drop n s) else None)"

definition lit :: "char \<Rightarrow> string \<Rightarrow> string option" where
  "lit c s = (case s of [] \<Rightarrow> None | x # r \<Rightarrow> if x = c then Some r else None)"

definition plus_or_minus :: "string \<Rightarrow> string option" where
  "plus_or_minus s =
     (case s of [] \<Rightarrow> None | x # r \<Rightarrow> if x = CHR ''+'' \<or> x = CHR ''-'' then Some r else None)"

definition end_of_input :: "string \<Rightarrow> unit option" where
  "end_of_input s = (if s = [] then Some () else None)"

definition optional :: "(string \<Rightarrow> string option) \<Rightarrow> (string \<Rightarrow> 'a option) \<Rightarrow> string \<Rightarrow> 'a option" where
  "optional item rest s =
     (case Option.bind (item s) rest of Some a \<Rightarrow> Some a | None \<Rightarrow> rest s)"

text \<open>\<^verbatim>\<open>[+-]?\d{2}:?\d{2}$\<close>, the pattern of the last group up to the end of the input.\<close>

definition offset_pattern :: "string \<Rightarrow> unit option" where
  "offset_pattern s =
     optional plus_or_minus
       (\<lambda>s1. do {
          (hh, s2) \<leftarrow> digits 2 s1;
          optional (lit CHR '':'')
            (\<lambda>s3. do {
               (mm, s4) \<leftarrow> digits 2 s3;
               end_of_input s4
             }) s2
        }) s"

text \<open>The groups 1 to 8 of a match; group 7 is \<open>None\<close> when the fraction is absent.\<close>

definition iso_exec ::
  "string \<Rightarrow> (string \<times> string \<times> string \<times> string \<times> string \<times> string \<times> string option \<times> string) option" where
  "iso_exec dateTime =
     do {
       (r1, s1) \<leftarrow> digits 4 dateTime;
       s2 \<leftarrow> lit CHR ''-'' s1;
       (r2, s3) \<leftarrow> digits 2 s2;
       s4 \<leftarrow> lit CHR ''-'' s3;
       (r3, s5) \<leftarrow> digits 2 s4;
       s6 \<leftarrow> lit CHR ''T'' s5;
       (r4, s7) \<leftarrow> digits 2 s6;
       s8 \<leftarrow> lit CHR '':'' s7;
       (r5, s9) \<leftarrow> digits 2 s8;
       s10 \<leftarrow> lit CHR '':'' s9;
       (r6, s11) \<leftarrow> digits 2 s10;
       (case do {
               s12 \<leftarrow> lit CHR ''.'' s11;
               (r7, s13) \<leftarrow> digits 3 s12;
               _ \<leftarrow> offset_pattern s13;
               Some (r7, s13)
             } of
          Some (r7, r8) \<Rightarrow> Some (r1, r2, r3, r4, r5, r6, Some r7, r8)
        | None \<Rightarrow>
            do {
              _ \<leftarrow> offset_pattern s11;
              Some (r1, r2, r3, r4, r5, r6, None, s11)
            })
     }"

text \<open>
  \<open>parse\<close>. The constructor of \<open>TimeZone\<close> from a string is not among the sources and is
  the parameter \<open>TimeZone_new\<close>; it is called, and may throw, before \<open>fromDateTime\<close> runs.
\<close>

definition parse :: "(string \<Rightarrow> error + TimeZone) \<Rightarrow> int \<Rightarrow> string \<Rightarrow> error + DateTime" where
  "parse TimeZone_new clock dateTime =
     (case iso_exec dateTime of
        None \<Rightarrow>
          Inl (DateTimeError
            (''Expected valid ISO8601 date-time, found '' @ [CHR 0x22] @ dateTime @ [CHR 0x22] @ ''.''))
      | Some (r1, r2, r3, r4, r5, r6, r7, r8) \<Rightarrow>
          (case TimeZone_new r8 of
             Inl e \<Rightarrow> Inl e
           | Inr timeZone \<Rightarrow>
               fromDateTime clock (parseInt r1) (parseInt r2) (parseInt r3) (parseInt r4)
                 (parseInt r5) (parseInt r6)
                 (case r7 of None \<Rightarrow> Some 0 | Some f \<Rightarrow> parseInt f) timeZone))"

text \<open>
  Modelled from the spec: the constructor of \<open>TimeZone\<close> from a string, for an explicit
  offset \<open>\<plusminus>HH:MM\<close> or \<open>\<plusminus>HHMM\<close> (the sign may be missing and then means \<open>+\<close>); the
  offset is \<open>HH\<close> hours and \<open>MM\<close> minutes, in minutes. Zone names are resolved by the
  collaborator and are not modelled: they give \<open>TimeZoneError\<close> here.
\<close>

definition TimeZone_fromOffsetString :: "string \<Rightarrow> error + TimeZone" where
  "TimeZone_fromOffsetString s =
     (case offset_pattern s of
        None \<Rightarrow> Inl TimeZoneError
      | Some _ \<Rightarrow>
          (let ds = filter isDigit s;
               minutes = orElse (parseInt (take 2 ds)) 0 * 60 + orElse (parseInt (drop 2 ds)) 0
           in Inr \<lparr>offset = (if take 1 s = ''-'' then - minutes else minutes)\<rparr>))"

section \<open>Reference definitions\<close>

text \<open>
  The notions that the specification states the properties with: leap years and month
  lengths, and the message of a validation error.
\<close>

definition leap_year :: "int \<Rightarrow> bool" where
  "leap_year year = (4 dvd year \<and> (\<not> 100 dvd year \<or> 400 dvd year))"

definition month_length :: "int \<Rightarrow> int \<Rightarrow> int" where
  "month_length month year =
     (if month \<in> {1, 3, 5, 7, 8, 10, 12} then 31
      else if month \<in> {4, 6, 9, 11} then 30
      else if leap_year year then 29
      else 28)"



text \<open>
  The \<open>Date\<close> of the platform holds the instants within 8,640,000,000,000,000 ms of
  the epoch. The last day that lies in this range as a whole is 12 September 275760.
\<close>

definition within_Date_range :: "int \<Rightarrow> int \<Rightarrow> int \<Rightarrow> bool" where
  "within_Date_range year month day =
     (year < 275760 \<or> (year = 275760 \<and> (month < 9 \<or> (month = 9 \<and> day \<le> 12))))"

text \<open>
  The epoch timestamp of calendar fields read as an instant in UTC, by counting: the
  days of the whole years between 1970 and the year, the days of the whole months before
  the month, the days before the day, and the time of day in milliseconds.
\<close>

definition year_length :: "int \<Rightarrow> int" where
  "year_length year = (if leap_year year then 366 else 365)"

definition days_before_year :: "int \<Rightarrow> int" where
  "days_before_year year =
     (if 1970 \<le> year then (\<Sum>k\<leftarrow>[1970..year - 1]. year_length k)
      else - (\<Sum>k\<leftarrow>[year..1969]. year_length k))"

definition days_before_month :: "int \<Rightarrow> int \<Rightarrow> int" where
  "days_before_month month year = (\<Sum>i\<leftarrow>[1..month - 1]. month_length i year)"

definition utc_epoch_ms :: "int \<Rightarrow> int \<Rightarrow> int \<Rightarrow> int \<Rightarrow> int \<Rightarrow> int \<Rightarrow> int \<Rightarrow> int" where
  "utc_epoch_ms year month day hour minute second ms =
     (days_before_year year + days_before_month month year + (day - 1)) * 86400000
     + hour * 3600000 + minute * 60000 + second * 1000 + ms"


text \<open>The ranges that the specification gives for the cached fields of an instance.\<close>

definition fields_in_range :: "DateTime \<Rightarrow> bool" where
  "fields_in_range dt =
     (case (m_year dt, m_month dt, m_day dt, m_weekday dt, m_hour dt, m_minute dt, m_second dt,
            m_ms dt) of
        (Some y, Some mo, Some d, Some w, Some h, Some mi, Some s, Some ms) \<Rightarrow>
          0 \<le> y \<and> 1 \<le> mo \<and> mo \<le> 12 \<and> 1 \<le> d \<and> d \<le> month_length mo y \<and> 0 \<le> w \<and> w \<le> 6
          \<and> 0 \<le> h \<and> h \<le> 23 \<and> 0 \<le> mi \<and> mi \<le> 59 \<and> 0 \<le> s \<and> s \<le> 59 \<and> 0 \<le> ms \<and> ms \<le> 999
      | _ \<Rightarrow> False)"

text \<open>
  The grammar of \<open>parse\<close> in the words of the specification:
  \<open>YYYY-MM-DDTHH:MM:SS[.mmm]\<plusminus>HH:MM\<close>, with a year of 4 digits, a month, day, hour,
  minute and second of 2 digits each, an optional fraction of exactly 3 digits, and an
  offset whose sign and colon are optional.
\<close>

definition digit_string :: "nat \<Rightarrow> string \<Rightarrow> bool" where
  "digit_string n z = (length z = n \<and> list_all isDigit z)"

definition iso_offset :: "string \<Rightarrow> bool" where
  "iso_offset z =
     (\<exists>sg hh c mm.
        z = sg @ hh @ c @ mm \<and> (sg = [] \<or> sg = ''+'' \<or> sg = ''-'') \<and> digit_string 2 hh
        \<and> (c = [] \<or> c = '':'') \<and> digit_string 2 mm)"

definition iso_grammar :: "string \<Rightarrow> bool" where
  "iso_grammar s =
     (\<exists>year month day hour minute second fraction z.
        s = year @ ''-'' @ month @ ''-'' @ day @ ''T'' @ hour @ '':'' @ minute @ '':'' @ second
            @ fraction @ z
        \<and> digit_string 4 year \<and> digit_string 2 month \<and> digit_string 2 day \<and> digit_string 2 hour
        \<and> digit_string 2 minute \<and> digit_string 2 second
        \<and> (fraction = [] \<or> (\<exists>f. fraction = ''.'' @ f \<and> digit_string 3 f))
        \<and> iso_offset z)"

definition shape_message :: "string \<Rightarrow> string" where
  "shape_message dateTime =
     ''Expected valid ISO8601 date-time, found '' @ [CHR 0x22] @ dateTime @ [CHR 0x22] @ ''.''"

text \<open>The parts of the patterns of \<open>parse\<close>, named for the proofs.\<close>

definition colon_minutes :: "string \<Rightarrow> unit option" where
  "colon_minutes s2 =
     optional (lit CHR '':'') (\<lambda>s3. do { (mm, s4) \<leftarrow> digits 2 s3; end_of_input s4 }) s2"

definition hours_minutes :: "string \<Rightarrow> unit option" where
  "hours_minutes s1 = do { (hh, s2) \<leftarrow> digits 2 s1; colon_minutes s2 }"

definition fraction_offset :: "string \<Rightarrow> (string option \<times> string) option" where
  "fraction_offset s11 =
     (case do {
             s12 \<leftarrow> lit CHR ''.'' s11;
             (r7, s13) \<leftarrow> digits 3 s12;
             _ \<leftarrow> offset_pattern s13;
             Some (r7, s13)
           } of
        Some (r7, r8) \<Rightarrow> Some (Some r7, r8)
      | None \<Rightarrow> do { _ \<leftarrow> offset_pattern s11; Some (None, s11) })"

section \<open>Validation\<close>

lemma js_le_Some [simp]: "js_le (Some a) (Some b) = (a \<le> b)"
  by (simp add: js_le_def)

lemma js_le_None [simp]: "js_le None b = False" "js_le a None = False"
  by (simp_all add: js_le_def split: option.splits)

lemma js_rem_nonneg: "0 \<le> a \<Longrightarrow> 0 < b \<Longrightarrow> js_rem (Some a) b = Some (a mod b)"
  by (simp add: js_rem_def)

lemma month_cases:
  assumes "1 \<le> (month :: int)" "month \<le> 12"
  shows "month = 1 \<or> month = 2 \<or> month = 3 \<or> month = 4 \<or> month = 5 \<or> month = 6
    \<or> month = 7 \<or> month = 8 \<or> month = 9 \<or> month = 10 \<or> month = 11 \<or> month = 12"
  using assms by arith

lemma isValidDay_February:
  assumes "0 \<le> year"
  shows "isValidDay (Some day) (Some 2) (Some year) = (1 \<le> day \<and> day \<le> (if leap_year year then 29 else 28))"
  using assms by (simp add: isValidDay_def leap_year_def js_rem_nonneg dvd_eq_mod_eq_0)

lemma isValidDay_iff:
  assumes "0 \<le> year" "1 \<le> month" "month \<le> 12"
  shows "isValidDay (Some day) (Some month) (Some year) = (1 \<le> day \<and> day \<le> month_length month year)"
proof (cases "month = 2")
  case True
  then show ?thesis
    using isValidDay_February [OF assms(1)] by (simp add: month_length_def)
next
  case False
  then show ?thesis
    using month_cases [OF assms(2,3)] by (auto simp: isValidDay_def month_length_def)
qed

lemma Number_toString_29: "Number_toString (Some 29) = ''29''"
  by (simp add: Number_toString_def string_of_nat.simps digit_char_def)

lemma fromDateTime_1971:
  "fromDateTime clock (Some 1971) (Some 2) (Some 29) hour minute second ms tz =
     Inl (DateTimeError ''Expected valid day, found 29.'')"
  by (simp add: fromDateTime_def isValidYear_def isValidMonth_def isValidDay_def js_rem_def
      Number_toString_29)

lemma fromDateTime_1972:
  assumes "isValidHour hour" "isValidMinute minute" "isValidSecond second" "isValidMs ms"
  shows "\<exists>dt. fromDateTime clock (Some 1972) (Some 2) (Some 29) hour minute second ms tz = Inr dt"
  using assms
  by (simp add: fromDateTime_def isValidYear_def isValidMonth_def isValidDay_def js_rem_def Let_def)

text \<open>
  C5. For a year from 0 on and a month from 1 to 12, \<open>isValidDay\<close> accepts exactly the
  days from 1 to the length of the month, where February has 29 days in the years
  divisible by 4 and not by 100, or divisible by 400, and 28 otherwise. So
  \<open>fromDateTime(1971, 2, 29, ...)\<close> fails with the day error, and
  \<open>fromDateTime(1972, 2, 29, ...)\<close> returns an instance for every valid time of day.
\<close>

theorem isValidDay_month_length:
  "(\<forall>year month day. 0 \<le> year \<and> 1 \<le> month \<and> month \<le> 12 \<longrightarrow>
      isValidDay (Some day) (Some month) (Some year) = (1 \<le> day \<and> day \<le> month_length month year))
   \<and> (\<forall>clock hour minute second ms tz.
        fromDateTime clock (Some 1971) (Some 2) (Some 29) hour minute second ms tz =
          Inl (DateTimeError ''Expected valid day, found 29.''))
   \<and> (\<forall>clock hour minute second ms tz.
        isValidHour hour \<and> isValidMinute minute \<and> isValidSecond second \<and> isValidMs ms \<longrightarrow>
          (\<exists>dt. fromDateTime clock (Some 1972) (Some 2) (Some 29) hour minute second ms tz = Inr dt))"
  using isValidDay_iff fromDateTime_1971 fromDateTime_1972 by blast

theorem isValidDay_month_length_witness:
  "isValidDay (Some 29) (Some 2) (Some 2000) \<and> \<not> isValidDay (Some 29) (Some 2) (Some 1900)
   \<and> \<not> isValidDay (Some 31) (Some 4) (Some 1970) \<and> isValidDay (Some 31) (Some 1) (Some 1970)
   \<and> (\<exists>dt. fromDateTime 0 (Some 1972) (Some 2) (Some 29) (Some 0) (Some 0) (Some 0) (Some 0) utc = Inr dt)"
proof -
  note main = isValidDay_month_length
  have days: "isValidDay (Some day) (Some month) (Some year) = (1 \<le> day \<and> day \<le> month_length month year)"
    if "0 \<le> year" "1 \<le> month" "month \<le> 12" for year month day
    using main that by blast
  have time: "isValidHour (Some 0) \<and> isValidMinute (Some 0) \<and> isValidSecond (Some 0) \<and> isValidMs (Some 0)"
    by (simp add: isValidHour_def isValidMinute_def isValidSecond_def isValidMs_def)
  have "\<exists>dt. fromDateTime 0 (Some 1972) (Some 2) (Some 29) (Some 0) (Some 0) (Some 0) (Some 0) utc = Inr dt"
    using main time by blast
  then show ?thesis
    by (simp add: days month_length_def leap_year_def)
qed



section \<open>The formatter\<close>

lemmas matcher_defs = PlaceholderMatcher_exec_def match_here_def match_args_close_def
  greedy_lengths_def match_close_def notClose_def

lemma parseInt_1: "parseInt ''1'' = Some 1"
  by code_simp

lemma pad_loop_replicate: "pad_loop str n [c] = replicate (nat n) c @ str"
proof (induction str n "[c]" rule: pad_loop.induct)
  case (1 str len)
  show ?case
  proof (cases "0 < len")
    case True
    then have "nat len = Suc (nat (len - 1))" by simp
    with 1 True show ?thesis
      by (simp add: pad_loop.simps [of str len] replicate_append_same)
  next
    case False
    then show ?thesis by (simp add: pad_loop.simps [of str len])
  qed
qed

lemma pad_zero:
  "pad value (Some w) ''0'' =
     replicate (nat (w - int (length (Number_toString value)))) CHR ''0'' @ Number_toString value"
  by (simp add: pad_def pad_loop_replicate Let_def)

lemma find_False: "find (\<lambda>_. False) xs = None"
  by (induction xs) auto

lemma match_args_close_no_brace:
  assumes "list_all notClose t"
  shows "match_args_close t = None"
proof -
  have no: "\<not> match_close (drop n u)" if "list_all notClose u" for n u
  proof (cases "drop n u")
    case Nil
    then show ?thesis by (simp add: match_close_def)
  next
    case (Cons c v)
    then have "c \<in> set u"
      by (metis in_set_dropD list.set_intros(1))
    with that have "notClose c"
      by (simp add: list_all_iff)
    with Cons show ?thesis
      by (simp add: match_close_def notClose_def)
  qed
  have "\<not> match_close t"
    using no [OF assms, of 0] by simp
  moreover have "find (\<lambda>n. match_close (drop n r)) (greedy_lengths r) = None" if "t = c # r" for c r
  proof -
    have "list_all notClose r" using assms that by simp
    then show ?thesis using no by (simp add: find_None_iff)
  qed
  ultimately show ?thesis
    by (auto simp: match_args_close_def split: list.splits)
qed

lemma match_here_args:
  assumes "match_here s = Some (m, f, a)"
  shows "a = None"
proof -
  obtain r where s: "s = CHR ''{'' # r"
    using assms by (auto simp: match_here_def split: list.splits if_splits)
  define L where "L = length (takeWhile notClose r)"
  have gl: "greedy_lengths r = (if L = 0 then [] else L # rev [1..<L])"
    by (cases L) (simp_all add: greedy_lengths_def L_def [symmetric])
  have dr: "drop L r = dropWhile notClose r"
    by (simp add: L_def dropWhile_eq_drop)
  show ?thesis
  proof (cases "dropWhile notClose r")
    case Nil
    then have "list_all notClose r"
      by (simp add: list_all_iff dropWhile_eq_Nil_conv)
    then have "list_all notClose (drop n r)" for n
      by (metis append_take_drop_id list_all_append)
    then have "match_args_close (drop n r) = None" for n
      by (rule match_args_close_no_brace)
    then have "match_here s = None"
      by (simp add: match_here_def s find_False)
    with assms show ?thesis by simp
  next
    case (Cons c t)
    then have "\<not> notClose c"
      by (metis hd_dropWhile list.sel(1) list.distinct(1))
    then have c: "c = CHR ''}''" by (simp add: notClose_def)
    have ok: "match_args_close (drop L r) = Some (None, 1)"
      by (simp add: dr Cons c match_args_close_def match_close_def)
    show ?thesis
    proof (cases "L = 0")
      case True
      then have "match_here s = None"
        by (simp add: match_here_def s gl)
      with assms show ?thesis by simp
    next
      case False
      then have "match_here s = Some (take (1 + L + 1) s, take L r, None)"
        by (simp add: match_here_def s gl ok)
      with assms show ?thesis by simp
    qed
  qed
qed

lemma exec_from_args: "exec_from i s = Some (j, m, f, a) \<Longrightarrow> a = None"
proof (induction s arbitrary: i)
  case Nil
  then show ?case by simp
next
  case (Cons c cs)
  then show ?case
    using match_here_args [of "c # cs"] by (auto split: option.splits)
qed

lemma PlaceholderMatcher_exec_args: "PlaceholderMatcher_exec s = Some (j, m, f, a) \<Longrightarrow> a = None"
  unfolding PlaceholderMatcher_exec_def by (rule exec_from_args)

lemma format_loop_ignores_args:
  "format_loop (map (\<lambda>(k, f). (k, \<lambda>d a. f d None)) fs) dt fmt str = format_loop fs dt fmt str"
proof (induction fs dt fmt str rule: format_loop.induct)
  case (1 fs dt fmt str)
  have look: "map_of (map (\<lambda>(k, f). (k, \<lambda>d a. f d None)) fs) k =
      map_option (\<lambda>f d a. f d None) (map_of fs k)" for k
    by (induction fs) auto
  show ?case
  proof (cases "PlaceholderMatcher_exec fmt")
    case None
    then show ?thesis
      by (simp add: format_loop.simps [of _ dt fmt str])
  next
    case (Some x)
    obtain i m f a where x: "x = (i, m, f, a)" by (cases x) auto
    have "PlaceholderMatcher_exec fmt = Some (i, m, f, a)"
      using Some x by simp
    moreover from this have "a = None"
      by (rule PlaceholderMatcher_exec_args)
    ultimately have ex: "PlaceholderMatcher_exec fmt = Some (i, m, f, None)"
      by simp
    show ?thesis
    proof (cases "map_of fs f")
      case None
      then show ?thesis
        by (simp add: format_loop.simps [of _ dt fmt str] look ex)
    next
      case (Some g)
      note IH = 1 [OF ex refl refl refl Some]
      show ?thesis
        by (simp add: format_loop.simps [of _ dt fmt str] look ex Some IH)
    qed
  qed
qed

lemma format_ignores_args:
  "format (map (\<lambda>(k, f). (k, \<lambda>d a. f d None)) fs) fmt dt = format fs fmt dt"
  by (simp add: format_def format_loop_ignores_args)

text \<open>
  C3. The first group of \<open>PlaceholderMatcher\<close> is greedy and takes the colon and the
  arguments with it, so the second group never matches: \<open>format\<close> looks up
  \<open>year:4\<close> and \<open>weekday:short\<close> as specifiers, which are not registered, and throws,
  although \<open>year\<close> and \<open>weekday\<close> are registered.
\<close>

theorem format_placeholder_with_args_undefined:
  "map_of createInternalFormatters ''year'' = Some formatter_year
   \<and> map_of createInternalFormatters ''weekday'' = Some formatter_weekday
   \<and> PlaceholderMatcher_exec ''{year:4}'' = Some (0, ''{year:4}'', ''year:4'', None)
   \<and> format createInternalFormatters ''{year:4}'' dt =
       Inl (DateTimeFormatterError
         (''Undefined component formatter '' @ [CHR 0x27] @ ''year:4'' @ [CHR 0x27] @ ''.''))
   \<and> format createInternalFormatters ''{weekday:short}'' dt =
       Inl (DateTimeFormatterError
         (''Undefined component formatter '' @ [CHR 0x27] @ ''weekday:short'' @ [CHR 0x27] @ ''.''))"
proof -
  have "map_of createInternalFormatters ''year'' = Some formatter_year"
    and "map_of createInternalFormatters ''weekday'' = Some formatter_weekday"
    by (simp_all add: createInternalFormatters_def)
  moreover have "PlaceholderMatcher_exec ''{year:4}'' = Some (0, ''{year:4}'', ''year:4'', None)"
    by code_simp
  moreover have "format createInternalFormatters ''{year:4}'' dt =
       Inl (DateTimeFormatterError
         (''Undefined component formatter '' @ [CHR 0x27] @ ''year:4'' @ [CHR 0x27] @ ''.''))"
    by code_simp
  moreover have "format createInternalFormatters ''{weekday:short}'' dt =
       Inl (DateTimeFormatterError
         (''Undefined component formatter '' @ [CHR 0x27] @ ''weekday:short'' @ [CHR 0x27] @ ''.''))"
    by code_simp
  ultimately show ?thesis by simp
qed

lemma toISOString_parts:
  "toISOString [] dt =
     Inr (formatter_Y dt None @ ''-'' @ formatter_M dt None @ ''-'' @ formatter_D dt None @ ''T''
          @ formatter_h dt None @ '':'' @ formatter_m dt None @ '':''
          @ pad (m_second dt) (Some 2) ''0'' @ ''.'' @ pad (m_second dt) (Some 1) ''0''
          @ formatter_Z dt None)"
  by (simp add: toISOString_def DateTimeFormatter_new_def format_def formatStringIso8601_def
      format_loop.simps matcher_defs createInternalFormatters_def formatter_s_def formatter_ms_def
      orElse_def parseInt_1)

lemma formatter_ms_replicate:
  "formatter_ms dt args =
     (case parseInt (orElse args ''1'') of
        None \<Rightarrow> Number_toString (m_second dt)
      | Some w \<Rightarrow>
          replicate (nat (w - int (length (Number_toString (m_second dt))))) CHR ''0''
          @ Number_toString (m_second dt))"
  by (simp add: formatter_ms_def pad_zero split: option.splits) (simp add: pad_def)

text \<open>
  C8. The specifier \<open>ms\<close> is registered with a formatter that renders the second of the
  view, padded with zeros to the width that its argument requests (1 without an
  argument), and that does not read the millisecond. The string of \<open>toISOString\<close> ends
  with the second padded to 2, a dot, the second padded to 1 and the offset; it does
  not depend on the millisecond.
\<close>

theorem ms_specifier_renders_second:
  "map_of createInternalFormatters ''ms'' = Some formatter_ms
   \<and> formatter_ms dt args =
       (case parseInt (orElse args ''1'') of
          None \<Rightarrow> Number_toString (m_second dt)
        | Some w \<Rightarrow>
            replicate (nat (w - int (length (Number_toString (m_second dt))))) CHR ''0''
            @ Number_toString (m_second dt))
   \<and> formatter_ms (dt\<lparr>m_ms := x\<rparr>) args = formatter_ms dt args
   \<and> toISOString [] dt =
       Inr (formatter_Y dt None @ ''-'' @ formatter_M dt None @ ''-'' @ formatter_D dt None @ ''T''
            @ formatter_h dt None @ '':'' @ formatter_m dt None @ '':''
            @ pad (m_second dt) (Some 2) ''0'' @ ''.'' @ pad (m_second dt) (Some 1) ''0''
            @ formatter_Z dt None)
   \<and> toISOString [] (dt\<lparr>m_ms := x\<rparr>) = toISOString [] dt"
proof -
  have "map_of createInternalFormatters ''ms'' = Some formatter_ms"
    by (simp add: createInternalFormatters_def)
  moreover have "formatter_ms (dt\<lparr>m_ms := x\<rparr>) args = formatter_ms dt args"
    by (simp add: formatter_ms_def)
  moreover have "toISOString [] (dt\<lparr>m_ms := x\<rparr>) = toISOString [] dt"
    by (simp add: toISOString_parts formatter_Y_def formatter_M_def formatter_D_def
        formatter_h_def formatter_m_def formatter_Z_def)
  ultimately show ?thesis
    using formatter_ms_replicate [of dt args] toISOString_parts [of dt] by simp
qed

theorem ms_specifier_renders_second_witness:
  "formatter_ms (fromTimestamp 5123 utc) (Some ''3'') = ''005''
   \<and> formatter_ms (fromTimestamp 5123 utc) None = ''5''
   \<and> m_ms (fromTimestamp 5123 utc) = Some 123
   \<and> toISOString [] (fromTimestamp 5123 utc) = Inr ''1970-01-01T00:00:05.5+00:00''"
proof -
  note main = ms_specifier_renders_second [of "fromTimestamp 5123 utc"]
  have "formatter_ms (fromTimestamp 5123 utc) (Some ''3'') =
      (case parseInt (orElse (Some ''3'') ''1'') of
          None \<Rightarrow> Number_toString (m_second (fromTimestamp 5123 utc))
        | Some w \<Rightarrow>
            replicate (nat (w - int (length (Number_toString (m_second (fromTimestamp 5123 utc))))))
              CHR ''0''
            @ Number_toString (m_second (fromTimestamp 5123 utc)))"
    using main [of "Some ''3''"] by blast
  also have "\<dots> = ''005''"
    by code_simp
  finally have a: "formatter_ms (fromTimestamp 5123 utc) (Some ''3'') = ''005''" .
  have "formatter_ms (fromTimestamp 5123 utc) None =
      (case parseInt (orElse None ''1'') of
          None \<Rightarrow> Number_toString (m_second (fromTimestamp 5123 utc))
        | Some w \<Rightarrow>
            replicate (nat (w - int (length (Number_toString (m_second (fromTimestamp 5123 utc))))))
              CHR ''0''
            @ Number_toString (m_second (fromTimestamp 5123 utc)))"
    using main [of None] by blast
  also have "\<dots> = ''5''"
    by code_simp
  finally have b: "formatter_ms (fromTimestamp 5123 utc) None = ''5''" .
  have c: "m_ms (fromTimestamp 5123 utc) = Some 123"
    by code_simp
  have "toISOString [] (fromTimestamp 5123 utc) =
       Inr (formatter_Y (fromTimestamp 5123 utc) None @ ''-''
            @ formatter_M (fromTimestamp 5123 utc) None @ ''-''
            @ formatter_D (fromTimestamp 5123 utc) None @ ''T''
            @ formatter_h (fromTimestamp 5123 utc) None @ '':''
            @ formatter_m (fromTimestamp 5123 utc) None @ '':''
            @ pad (m_second (fromTimestamp 5123 utc)) (Some 2) ''0'' @ ''.''
            @ pad (m_second (fromTimestamp 5123 utc)) (Some 1) ''0''
            @ formatter_Z (fromTimestamp 5123 utc) None)"
    using main [of None] by blast
  also have "\<dots> = Inr ''1970-01-01T00:00:05.5+00:00''"
    by code_simp
  finally show ?thesis
    using a b c by simp
qed

section \<open>Calendar arithmetic of Date\<close>

lemma int_div_bounds:
  fixes n k :: int
  assumes "0 < k"
  shows "k * (n div k) \<le> n" "n < k * (n div k) + k"
proof -
  have "n = k * (n div k) + n mod k" by simp
  moreover have "0 \<le> n mod k" "n mod k < k" using assms by simp_all
  ultimately show "k * (n div k) \<le> n" "n < k * (n div k) + k" by linarith+
qed

lemma div_succ:
  fixes n k :: int
  assumes "0 < k"
  shows "(n + 1) div k = n div k + (if (n + 1) mod k = 0 then 1 else 0)"
proof -
  define q r where "q = n div k" and "r = n mod k"
  have n: "n = k * q + r" and r: "0 \<le> r" "r < k"
    using assms by (simp_all add: q_def r_def)
  show ?thesis
  proof (cases "r + 1 = k")
    case True
    then have eq: "n + 1 = k * (q + 1) + 0"
      using n by (simp add: algebra_simps)
    have "(n + 1) div k = q + 1"
      by (rule int_div_pos_eq [OF eq]) (use assms in simp_all)
    moreover have "(n + 1) mod k = 0"
      by (rule int_mod_pos_eq [OF eq]) (use assms in simp_all)
    ultimately show ?thesis by (simp add: q_def)
  next
    case False
    then have lt: "r + 1 < k" using r by simp
    have eq: "n + 1 = k * q + (r + 1)"
      using n by simp
    have "(n + 1) div k = q"
      by (rule int_div_pos_eq [OF eq]) (use r lt in simp_all)
    moreover have "(n + 1) mod k = r + 1"
      by (rule int_mod_pos_eq [OF eq]) (use r lt in simp_all)
    ultimately show ?thesis using r by (simp add: q_def)
  qed
qed

lemma mod_shift_4: "(y - 1968) mod 4 = (y :: int) mod 4" by algebra
lemma mod_shift_100: "(y - 1900) mod 100 = (y :: int) mod 100" by algebra
lemma mod_shift_400: "(y - 1600) mod 400 = (y :: int) mod 400" by algebra

lemma mod_0_divisor:
  fixes y a b :: int
  assumes "y mod b = 0" "a dvd b"
  shows "y mod a = 0"
proof -
  have "b dvd y" using assms(1) by (simp add: dvd_eq_mod_eq_0)
  with assms(2) have "a dvd y" by (rule dvd_trans)
  then show ?thesis by simp
qed

lemma DayFromYear_step: "DayFromYear (y + 1) = DayFromYear y + DaysInYear y"
proof -
  have a: "(y - 1968) div 4 = (y - 1969) div 4 + (if y mod 4 = 0 then 1 else 0)"
    using div_succ [of 4 "y - 1969"] mod_shift_4 [of y] by (simp add: algebra_simps)
  have b: "(y - 1900) div 100 = (y - 1901) div 100 + (if y mod 100 = 0 then 1 else 0)"
    using div_succ [of 100 "y - 1901"] mod_shift_100 [of y] by (simp add: algebra_simps)
  have c: "(y - 1600) div 400 = (y - 1601) div 400 + (if y mod 400 = 0 then 1 else 0)"
    using div_succ [of 400 "y - 1601"] mod_shift_400 [of y] by (simp add: algebra_simps)
  have d: "y mod 400 = 0 \<Longrightarrow> y mod 100 = 0"
    by (rule mod_0_divisor [of y 400 100]) simp_all
  have e: "y mod 100 = 0 \<Longrightarrow> y mod 4 = 0"
    by (rule mod_0_divisor [of y 100 4]) simp_all
  show ?thesis
    unfolding DayFromYear_def DaysInYear_def using d e by (simp add: a b c)
qed


lemma DaysInYear_bounds: "365 \<le> DaysInYear y" "DaysInYear y \<le> 366"
  by (simp_all add: DaysInYear_def)

lemma DayFromYear_mono: "y \<le> y' \<Longrightarrow> DayFromYear y \<le> DayFromYear y'"
proof (induction y' rule: int_ge_induct)
  case base
  show ?case by simp
next
  case (step i)
  then show ?case
    using DayFromYear_step [of i] DaysInYear_bounds(1) [of i] by linarith
qed

lemma DayFromYear_next: "y < y' \<Longrightarrow> DayFromYear (y + 1) \<le> DayFromYear y'"
  by (rule DayFromYear_mono) simp

lemma DayFromYear_estimate_low:
  "DayFromYear (1970 + (400 * d) div 146097 - 1) \<le> d"
proof -
  define q where "q = (400 * d) div 146097"
  define y where "y = 1970 + q - 1"
  note q = int_div_bounds [of 146097 "400 * d", folded q_def]
  note a = int_div_bounds [of 4 "y - 1969"]
  note b = int_div_bounds [of 100 "y - 1901"]
  note c = int_div_bounds [of 400 "y - 1601"]
  have "DayFromYear y \<le> d"
    unfolding DayFromYear_def using q a b c by (simp add: y_def) 
  then show ?thesis by (simp add: y_def q_def)
qed

lemma DayFromYear_estimate_high:
  "d < DayFromYear (1970 + (400 * d) div 146097 + 2)"
proof -
  define q where "q = (400 * d) div 146097"
  define y where "y = 1970 + q + 2"
  note q = int_div_bounds [of 146097 "400 * d", folded q_def]
  note a = int_div_bounds [of 4 "y - 1969"]
  note b = int_div_bounds [of 100 "y - 1901"]
  note c = int_div_bounds [of 400 "y - 1601"]
  have "d < DayFromYear y"
    unfolding DayFromYear_def using q a b c by (simp add: y_def) 
  then show ?thesis by (simp add: y_def q_def)
qed

lemma YearFromTime_bounds:
  "DayFromYear (YearFromTime t) \<le> Day t" "Day t < DayFromYear (YearFromTime t + 1)"
proof -
  define d where "d = Day t"
  define y where "y = 1970 + (400 * d) div 146097"
  have low: "DayFromYear (y - 1) \<le> d"
    using DayFromYear_estimate_low [of d] by (simp add: y_def)
  have high: "d < DayFromYear (y + 2)"
    using DayFromYear_estimate_high [of d] by (simp add: y_def)
  have Y: "YearFromTime t =
      (if d < DayFromYear y then y - 1 else if DayFromYear (y + 1) \<le> d then y + 1 else y)"
    by (simp add: YearFromTime_def d_def y_def Let_def)
  show "DayFromYear (YearFromTime t) \<le> Day t"
    using low by (simp add: Y d_def [symmetric])
  show "Day t < DayFromYear (YearFromTime t + 1)"
    using high by (simp add: Y d_def [symmetric] add.commute)
qed

lemma YearFromTime_unique:
  assumes "DayFromYear y \<le> Day t" "Day t < DayFromYear (y + 1)"
  shows "YearFromTime t = y"
proof (rule ccontr)
  assume "YearFromTime t \<noteq> y"
  then consider "YearFromTime t < y" | "y < YearFromTime t" by linarith
  then show False
  proof cases
    case 1
    then have "DayFromYear (YearFromTime t + 1) \<le> DayFromYear y"
      by (rule DayFromYear_next)
    then show False
      using YearFromTime_bounds(2) [of t] assms(1) by linarith
  next
    case 2
    then have "DayFromYear (y + 1) \<le> DayFromYear (YearFromTime t)"
      by (rule DayFromYear_next)
    then show False
      using YearFromTime_bounds(1) [of t] assms(2) by linarith
  qed
qed





lemma InLeapYear_cases: "InLeapYear t = 0 \<or> InLeapYear t = 1"
  by (simp add: InLeapYear_def)



lemma DaysInYear_leap: "DaysInYear y = (if leap_year y then 366 else 365)"
  by (simp add: DaysInYear_def leap_year_def dvd_eq_mod_eq_0)

lemma leap_InLeapYear: "leap_year (YearFromTime t) \<longleftrightarrow> InLeapYear t = 1"
  by (simp add: InLeapYear_def DaysInYear_leap)


lemma from_day_within_year:
  assumes "Day t = DayFromYear y + k" "0 \<le> k" "k < DaysInYear y"
  shows "YearFromTime t = y" "DayWithinYear t = k"
    "InLeapYear t = (if DaysInYear y = 366 then 1 else 0)"
proof -
  show y: "YearFromTime t = y"
    using assms DayFromYear_step [of y] by (intro YearFromTime_unique) simp_all
  show "DayWithinYear t = k"
    using assms(1) by (simp add: DayWithinYear_def y)
  show "InLeapYear t = (if DaysInYear y = 366 then 1 else 0)"
    by (simp add: InLeapYear_def y)
qed

lemma month_date_from_day:
  assumes dwy: "DayWithinYear t = DayFromMonth m (InLeapYear t) + d - 1"
    and m: "0 \<le> m" "m \<le> 11"
    and d: "1 \<le> d" "d \<le> month_length (m + 1) (YearFromTime t)"
  shows "MonthFromTime t = m \<and> DateFromTime t = d"
proof -
  note l = InLeapYear_cases [of t]
  have "m = 0 \<or> m = 1 \<or> m = 2 \<or> m = 3 \<or> m = 4 \<or> m = 5 \<or> m = 6 \<or> m = 7 \<or> m = 8
      \<or> m = 9 \<or> m = 10 \<or> m = 11"
    using m by arith
  then show ?thesis
    using dwy d l
    by (elim disjE)
      (simp_all add: MonthFromTime_def DateFromTime_def DayFromMonth_def Let_def month_length_def
        leap_InLeapYear)
qed


lemma MakeDate_Day:
  assumes "0 \<le> tm" "tm < msPerDay"
  shows "Day (MakeDate day tm) = day" "TimeWithinDay (MakeDate day tm) = tm"
proof -
  have eq: "MakeDate day tm = msPerDay * day + tm"
    by (simp add: MakeDate_def)
  show "Day (MakeDate day tm) = day"
    unfolding Day_def by (rule int_div_pos_eq [OF eq assms])
  show "TimeWithinDay (MakeDate day tm) = tm"
    unfolding TimeWithinDay_def by (rule int_mod_pos_eq [OF eq assms])
qed

lemma MakeTime_range:
  assumes "0 \<le> h" "h \<le> 23" "0 \<le> mi" "mi \<le> 59" "0 \<le> s" "s \<le> 59" "0 \<le> ms" "ms \<le> 999"
  shows "0 \<le> MakeTime h mi s ms" "MakeTime h mi s ms < msPerDay"
  using assms by (simp_all add: MakeTime_def msPerDay_def msPerHour_def msPerMinute_def msPerSecond_def)

lemma time_fields:
  fixes day h mi s ms :: int
  assumes "0 \<le> h" "h \<le> 23" "0 \<le> mi" "mi \<le> 59" "0 \<le> s" "s \<le> 59" "0 \<le> ms" "ms \<le> 999"
  shows "HourFromTime (MakeDate day (MakeTime h mi s ms)) = h"
    "MinFromTime (MakeDate day (MakeTime h mi s ms)) = mi"
    "SecFromTime (MakeDate day (MakeTime h mi s ms)) = s"
    "msFromTime (MakeDate day (MakeTime h mi s ms)) = ms"
proof -
  define t where "t = day * 86400000 + h * 3600000 + mi * 60000 + s * 1000 + ms"
  have t: "MakeDate day (MakeTime h mi s ms) = t"
    by (simp add: t_def MakeDate_def MakeTime_def msPerDay_def msPerHour_def msPerMinute_def
        msPerSecond_def)
  have "t div 3600000 = day * 24 + h"
    by (rule int_div_pos_eq [of _ _ _ "mi * 60000 + s * 1000 + ms"]) (use assms in \<open>simp_all add: t_def\<close>)
  moreover have "(day * 24 + h) mod 24 = h"
    by (rule int_mod_pos_eq [of _ _ day]) (use assms in simp_all)
  ultimately show "HourFromTime (MakeDate day (MakeTime h mi s ms)) = h"
    by (simp add: t HourFromTime_def msPerHour_def)
  have "t div 60000 = (day * 1440 + h * 60) + mi"
    by (rule int_div_pos_eq [of _ _ _ "s * 1000 + ms"]) (use assms in \<open>simp_all add: t_def\<close>)
  moreover have "((day * 1440 + h * 60) + mi) mod 60 = mi"
    by (rule int_mod_pos_eq [of _ _ "day * 24 + h"]) (use assms in simp_all)
  ultimately show "MinFromTime (MakeDate day (MakeTime h mi s ms)) = mi"
    by (simp add: t MinFromTime_def msPerMinute_def)
  have "t div 1000 = (day * 86400 + h * 3600 + mi * 60) + s"
    by (rule int_div_pos_eq [of _ _ _ ms]) (use assms in \<open>simp_all add: t_def\<close>)
  moreover have "((day * 86400 + h * 3600 + mi * 60) + s) mod 60 = s"
    by (rule int_mod_pos_eq [of _ _ "day * 1440 + h * 60 + mi"]) (use assms in simp_all)
  ultimately show "SecFromTime (MakeDate day (MakeTime h mi s ms)) = s"
    by (simp add: t SecFromTime_def msPerSecond_def)
  have "t mod 1000 = ms"
    by (rule int_mod_pos_eq [of _ _ "day * 86400 + h * 3600 + mi * 60 + s"])
      (use assms in \<open>simp_all add: t_def\<close>)
  then show "msFromTime (MakeDate day (MakeTime h mi s ms)) = ms"
    by (simp add: t msFromTime_def msPerSecond_def)
qed

lemma time_ranges:
  "0 \<le> HourFromTime t" "HourFromTime t \<le> 23" "0 \<le> MinFromTime t" "MinFromTime t \<le> 59"
  "0 \<le> SecFromTime t" "SecFromTime t \<le> 59" "0 \<le> msFromTime t" "msFromTime t \<le> 999"
  "0 \<le> WeekDay t" "WeekDay t \<le> 6"
  by (simp_all add: HourFromTime_def MinFromTime_def SecFromTime_def msFromTime_def WeekDay_def
      msPerSecond_def)

lemma days_before_year_0: "days_before_year 1970 = 0"
  by (simp add: days_before_year_def)

lemma upto_snoc: "i \<le> j + 1 \<Longrightarrow> [i..j + 1] = [i..j] @ [j + 1]"
  by (simp add: upto_rec2)

lemma days_before_year_step: "days_before_year (y + 1) = days_before_year y + year_length y"
proof (cases "1970 \<le> y")
  case True
  then have "[1970..y] = [1970..y - 1] @ [y]"
    using upto_rec2 [of 1970 y] by simp
  then show ?thesis
    using True by (simp add: days_before_year_def)
next
  case False
  then have "[y..1969] = y # [y + 1..1969]"
    using upto_rec1 [of y 1969] by simp
  then show ?thesis
    using False by (auto simp: days_before_year_def)
qed

lemma year_length_DaysInYear: "year_length y = DaysInYear y"
  by (simp add: year_length_def DaysInYear_leap)

lemma DayFromYear_1970: "DayFromYear 1970 = 0"
  by (simp add: DayFromYear_def)

lemma DayFromYear_counts: "DayFromYear y = days_before_year y"
proof (cases "1970 \<le> y")
  case True
  then show ?thesis
  proof (induction y rule: int_ge_induct)
    case base
    show ?case by (simp add: DayFromYear_1970 days_before_year_0)
  next
    case (step i)
    then show ?case
      by (simp add: DayFromYear_step days_before_year_step year_length_DaysInYear)
  qed
next
  case False
  then have "y \<le> 1970" by simp
  then show ?thesis
  proof (induction y rule: int_le_induct)
    case base
    show ?case by (simp add: DayFromYear_1970 days_before_year_0)
  next
    case (step i)
    then show ?case
      using DayFromYear_step [of "i - 1"] days_before_year_step [of "i - 1"]
      by (simp add: year_length_DaysInYear)
  qed
qed

lemma DayFromMonth_counts:
  assumes "1 \<le> m" "m \<le> 12"
  shows "DayFromMonth (m - 1) (if DaysInYear y = 366 then 1 else 0) = days_before_month m y"
  using month_cases [OF assms]
  by (elim disjE) (simp_all add: DayFromMonth_def days_before_month_def month_length_def
      DaysInYear_leap upto_rec1)


lemma MakeDay_valid:
  assumes "1 \<le> mo" "mo \<le> 12"
  shows "MakeDay y (mo - 1) d =
    DayFromYear y + DayFromMonth (mo - 1) (if DaysInYear y = 366 then 1 else 0) + d - 1"
proof -
  have "(mo - 1) div 12 = 0" "(mo - 1) mod 12 = mo - 1"
    using assms by simp_all
  then show ?thesis
    by (simp add: MakeDay_def)
qed

lemma MakeDay_counts:
  assumes "1 \<le> mo" "mo \<le> 12"
  shows "MakeDay y (mo - 1) d = days_before_year y + days_before_month mo y + (d - 1)"
  by (simp add: MakeDay_valid [OF assms] DayFromYear_counts DayFromMonth_counts [OF assms])

lemma day_of_year_bounds:
  assumes "1 \<le> mo" "mo \<le> 12" "1 \<le> d" "d \<le> month_length mo y"
  shows "0 \<le> DayFromMonth (mo - 1) (if DaysInYear y = 366 then 1 else 0) + d - 1"
    "DayFromMonth (mo - 1) (if DaysInYear y = 366 then 1 else 0) + d - 1 < DaysInYear y"
  using month_cases [OF assms(1,2)] assms(3,4)
  by (auto simp: DayFromMonth_def month_length_def DaysInYear_leap)

lemma DayFromYear_0: "DayFromYear 0 = - 719528"
  by (simp add: DayFromYear_def)

lemma DayFromYear_275760: "DayFromYear 275760 = 99999744"
  by (simp add: DayFromYear_def)

lemma MakeDay_range:
  assumes "0 \<le> y" "1 \<le> mo" "mo \<le> 12" "1 \<le> d" "d \<le> month_length mo y"
    and "within_Date_range y mo d"
  shows "- 719528 \<le> MakeDay y (mo - 1) d" "MakeDay y (mo - 1) d \<le> 99999999"
proof -
  note k = day_of_year_bounds [OF assms(2-5)]
  have "DayFromYear 0 \<le> DayFromYear y"
    using assms(1) by (rule DayFromYear_mono)
  then show "- 719528 \<le> MakeDay y (mo - 1) d"
    using k(1) by (simp add: MakeDay_valid [OF assms(2,3)] DayFromYear_0)
  show "MakeDay y (mo - 1) d \<le> 99999999"
  proof (cases "y < 275760")
    case True
    then have "DayFromYear (y + 1) \<le> DayFromYear 275760"
      by (rule DayFromYear_next)
    then show ?thesis
      using k(2) DayFromYear_step [of y]
      by (simp add: MakeDay_valid [OF assms(2,3)] DayFromYear_275760)
  next
    case False
    then have y: "y = 275760" and md: "mo < 9 \<or> (mo = 9 \<and> d \<le> 12)"
      using assms(6) by (auto simp: within_Date_range_def)
    have leap: "DaysInYear 275760 = 366"
      by (simp add: DaysInYear_def)
    have "DayFromMonth (mo - 1) 1 + d - 1 \<le> 255"
      using month_cases [OF assms(2,3)] md assms(5)
      by (auto simp: DayFromMonth_def month_length_def split: if_splits)
    then show ?thesis
      by (simp add: MakeDay_valid [OF assms(2,3)] y leap DayFromYear_275760)
  qed
qed

lemma TimeClip_in_range: "\<bar>t\<bar> \<le> 8640000000000000 \<Longrightarrow> TimeClip (Some t) = Some t"
  by (simp add: TimeClip_def)

lemma TimeClip_out_of_range: "\<bar>t\<bar> > 8640000000000000 \<Longrightarrow> TimeClip (Some t) = None"
  by (simp add: TimeClip_def)

lemma MakeDate_in_range:
  assumes "- 100000000 \<le> day" "day \<le> 99999999" "0 \<le> tm" "tm < msPerDay"
  shows "\<bar>MakeDate day tm\<bar> \<le> 8640000000000000"
  using assms by (simp add: MakeDate_def msPerDay_def)

lemma TimeWithinDay_range: "0 \<le> TimeWithinDay t" "TimeWithinDay t < msPerDay"
  by (simp_all add: TimeWithinDay_def msPerDay_def)

text \<open>The two setters of \<open>fromDateTime\<close>, for a day that lies in the range as a whole.\<close>

lemma set_date_and_time:
  assumes day: "- 100000000 \<le> MakeDay y m d" "MakeDay y m d \<le> 99999999"
    and tm: "0 \<le> MakeTime h mi s ms" "MakeTime h mi s ms < msPerDay"
  shows "setUTCHours (setUTCFullYear date0 (Some y) (Some m) (Some d)) (Some h) (Some mi) (Some s) (Some ms)
    = Some (MakeDate (MakeDay y m d) (MakeTime h mi s ms))"
proof -
  define t0 where "t0 = (case date0 of None \<Rightarrow> 0 | Some t \<Rightarrow> t)"
  define t1 where "t1 = MakeDate (MakeDay y m d) (TimeWithinDay t0)"
  have "\<bar>t1\<bar> \<le> 8640000000000000"
    unfolding t1_def using day TimeWithinDay_range by (rule MakeDate_in_range)
  then have one: "setUTCFullYear date0 (Some y) (Some m) (Some d) = Some t1"
    by (simp add: setUTCFullYear_def t0_def [symmetric] t1_def [symmetric] TimeClip_in_range)
  have d1: "Day t1 = MakeDay y m d"
    unfolding t1_def using TimeWithinDay_range by (rule MakeDate_Day)
  have "\<bar>MakeDate (MakeDay y m d) (MakeTime h mi s ms)\<bar> \<le> 8640000000000000"
    using day tm by (rule MakeDate_in_range)
  then show ?thesis
    by (simp add: one setUTCHours_def d1 TimeClip_in_range)
qed

lemma valid_Some [simp]:
  "isValidYear (Some y) = (0 \<le> y)"
  "isValidMonth (Some mo) = (1 \<le> mo \<and> mo \<le> 12)"
  "isValidHour (Some h) = (0 \<le> h \<and> h \<le> 23)"
  "isValidMinute (Some mi) = (0 \<le> mi \<and> mi \<le> 59)"
  "isValidSecond (Some s) = (0 \<le> s \<and> s \<le> 59)"
  "isValidMs (Some ms) = (0 \<le> ms \<and> ms \<le> 999)"
  by (simp_all add: isValidYear_def isValidMonth_def isValidHour_def isValidMinute_def
      isValidSecond_def isValidMs_def)

lemma fromDateTime_valid:
  assumes "0 \<le> y" "1 \<le> mo" "mo \<le> 12" "1 \<le> d" "d \<le> month_length mo y"
    and "0 \<le> h" "h \<le> 23" "0 \<le> mi" "mi \<le> 59" "0 \<le> s" "s \<le> 59" "0 \<le> ms" "ms \<le> 999"
    and "within_Date_range y mo d"
  shows "fromDateTime clock (Some y) (Some mo) (Some d) (Some h) (Some mi) (Some s) (Some ms) tz =
    Inr (DateTime_new
      (Some (MakeDate (MakeDay y (mo - 1) d) (MakeTime h mi s ms) - offset tz * 60 * 1000)) tz)"
proof -
  have vd: "isValidDay (Some d) (Some mo) (Some y)"
    using assms(1-5) by (simp add: isValidDay_iff)
  note r = MakeDay_range [OF assms(1-5) assms(14)]
  have "setUTCHours (setUTCFullYear (Date_now clock) (Some y) (Some (mo - 1)) (Some d))
      (Some h) (Some mi) (Some s) (Some ms)
    = Some (MakeDate (MakeDay y (mo - 1) d) (MakeTime h mi s ms))"
    using r MakeTime_range [OF assms(6-13)] by (intro set_date_and_time) simp_all
  then show ?thesis
    using assms vd by (simp add: fromDateTime_def Let_def)
qed

text \<open>The fields that the constructor reads when the shifted instant is in the range.\<close>

lemma DateTime_new_fields:
  assumes "\<bar>ts + offset tz * 60 * 1000\<bar> \<le> 8640000000000000"
  defines "t \<equiv> ts + offset tz * 60 * 1000"
  shows "DateTime_new (Some ts) tz =
    \<lparr>m_timestamp = Some ts,
     m_year = Some (YearFromTime t),
     m_month = Some (MonthFromTime t + 1),
     m_day = Some (DateFromTime t),
     m_weekday = Some (WeekDay t),
     m_hour = Some (HourFromTime t),
     m_minute = Some (MinFromTime t),
     m_second = Some (SecFromTime t),
     m_ms = Some (msFromTime t),
     m_timezone = tz\<rparr>"
  using assms(1)
  by (simp add: DateTime_new_def Date_new_def TimeClip_in_range t_def getUTCFullYear_def
      getUTCMonth_def getUTCDate_def getUTCDay_def getUTCHours_def getUTCMinutes_def
      getUTCSeconds_def getUTCMilliseconds_def)

lemma DateTime_new_invalid:
  assumes "\<bar>ts + offset tz * 60 * 1000\<bar> > 8640000000000000"
  shows "DateTime_new (Some ts) tz =
    \<lparr>m_timestamp = Some ts, m_year = None, m_month = None, m_day = None, m_weekday = None,
     m_hour = None, m_minute = None, m_second = None, m_ms = None, m_timezone = tz\<rparr>"
  using assms
  by (simp add: DateTime_new_def Date_new_def TimeClip_out_of_range getUTCFullYear_def
      getUTCMonth_def getUTCDate_def getUTCDay_def getUTCHours_def getUTCMinutes_def
      getUTCSeconds_def getUTCMilliseconds_def)

lemma calendar_fields:
  assumes "1 \<le> mo" "mo \<le> 12" "1 \<le> d" "d \<le> month_length mo y"
    and "0 \<le> h" "h \<le> 23" "0 \<le> mi" "mi \<le> 59" "0 \<le> s" "s \<le> 59" "0 \<le> ms" "ms \<le> 999"
  defines "t \<equiv> MakeDate (MakeDay y (mo - 1) d) (MakeTime h mi s ms)"
  shows "YearFromTime t = y" "MonthFromTime t = mo - 1" "DateFromTime t = d"
    "HourFromTime t = h" "MinFromTime t = mi" "SecFromTime t = s" "msFromTime t = ms"
proof -
  define l :: int where "l = (if DaysInYear y = 366 then 1 else 0)"
  note tm = MakeTime_range [OF assms(5-12)]
  have "Day t = MakeDay y (mo - 1) d"
    unfolding t_def using tm by (rule MakeDate_Day)
  then have day: "Day t = DayFromYear y + (DayFromMonth (mo - 1) l + d - 1)"
    by (simp add: MakeDay_valid [OF assms(1,2)] l_def)
  note k = day_of_year_bounds [OF assms(1-4), folded l_def]
  note yk = from_day_within_year [OF day k, folded l_def]
  show "YearFromTime t = y" by (rule yk(1))
  have "MonthFromTime t = mo - 1 \<and> DateFromTime t = d"
    using assms(1-4) by (intro month_date_from_day) (simp_all add: yk)
  then show "MonthFromTime t = mo - 1" "DateFromTime t = d" by simp_all
  show "HourFromTime t = h" "MinFromTime t = mi" "SecFromTime t = s" "msFromTime t = ms"
    unfolding t_def by (rule time_fields [OF assms(5-12)])+
qed

text \<open>
  The day that \<open>MakeDay\<close> computes for the first of a month is the day of a time with
  that year, that month and the date 1, as the standard asks.
\<close>

lemma MakeDay_finds:
  assumes "0 \<le> mn" "mn \<le> 11"
  shows "YearFromTime (MakeDate (MakeDay ym mn 1) 0) = ym"
    "MonthFromTime (MakeDate (MakeDay ym mn 1) 0) = mn"
    "DateFromTime (MakeDate (MakeDay ym mn 1) 0) = 1"
proof -
  have m: "1 \<le> mn + 1" "mn + 1 \<le> 12"
    using assms by simp_all
  have d: "(1::int) \<le> 1" "1 \<le> month_length (mn + 1) ym"
    by (simp_all add: month_length_def)
  have z: "(0::int) \<le> 0" "(0::int) \<le> 23" "(0::int) \<le> 59" "(0::int) \<le> 999"
    by simp_all
  note f = calendar_fields [OF m d z(1,2) z(1,3) z(1,3) z(1,4)]
  have t: "MakeTime 0 0 0 0 = 0"
    by (simp add: MakeTime_def)
  show "YearFromTime (MakeDate (MakeDay ym mn 1) 0) = ym"
    "MonthFromTime (MakeDate (MakeDay ym mn 1) 0) = mn"
    "DateFromTime (MakeDate (MakeDay ym mn 1) 0) = 1"
    using f(1,2,3) by (simp_all add: t)
qed

section \<open>Construction from calendar fields\<close>

lemma fromDateTime_fields:
  assumes "0 \<le> y" "1 \<le> mo" "mo \<le> 12" "1 \<le> d" "d \<le> month_length mo y"
    and "0 \<le> h" "h \<le> 23" "0 \<le> mi" "mi \<le> 59" "0 \<le> s" "s \<le> 59" "0 \<le> ms" "ms \<le> 999"
    and "within_Date_range y mo d"
  shows "fromDateTime clock (Some y) (Some mo) (Some d) (Some h) (Some mi) (Some s) (Some ms) tz =
    Inr \<lparr>m_timestamp = Some (utc_epoch_ms y mo d h mi s ms - offset tz * 60000),
         m_year = Some y, m_month = Some mo, m_day = Some d,
         m_weekday = Some (WeekDay (utc_epoch_ms y mo d h mi s ms)),
         m_hour = Some h, m_minute = Some mi, m_second = Some s, m_ms = Some ms,
         m_timezone = tz\<rparr>"
proof -
  define t where "t = MakeDate (MakeDay y (mo - 1) d) (MakeTime h mi s ms)"
  have epoch: "t = utc_epoch_ms y mo d h mi s ms"
    by (simp add: t_def MakeDate_def MakeTime_def MakeDay_counts [OF assms(2,3)] utc_epoch_ms_def
        msPerDay_def msPerHour_def msPerMinute_def msPerSecond_def)
  note r = MakeDay_range [OF assms(1-5) assms(14)]
  have "\<bar>t\<bar> \<le> 8640000000000000"
    unfolding t_def using r MakeTime_range [OF assms(6-13)] by (intro MakeDate_in_range) simp_all
  then have "\<bar>(t - offset tz * 60 * 1000) + offset tz * 60 * 1000\<bar> \<le> 8640000000000000"
    by simp
  note new = DateTime_new_fields [OF this]
  have shift: "t - offset tz * 60 * 1000 + offset tz * 60 * 1000 = t"
    by simp
  note f = calendar_fields [OF assms(2-13), folded t_def]
  have one: "fromDateTime clock (Some y) (Some mo) (Some d) (Some h) (Some mi) (Some s) (Some ms) tz =
      Inr (DateTime_new (Some (t - offset tz * 60 * 1000)) tz)"
    unfolding t_def using assms by (rule fromDateTime_valid)
  have two: "DateTime_new (Some (t - offset tz * 60 * 1000)) tz =
      \<lparr>m_timestamp = Some (t - offset tz * 60 * 1000),
       m_year = Some y, m_month = Some mo, m_day = Some d, m_weekday = Some (WeekDay t),
       m_hour = Some h, m_minute = Some mi, m_second = Some s, m_ms = Some ms,
       m_timezone = tz\<rparr>"
    using new [unfolded shift] by (simp add: f)
  show ?thesis
    unfolding one two by (simp add: epoch)
qed







section \<open>withTimeZone\<close>









section \<open>Parsing\<close>

lemma digits_Some: "digits n s = Some (a, b) \<longleftrightarrow> s = a @ b \<and> digit_string n a"
proof
  assume "digits n s = Some (a, b)"
  then have "n \<le> length s" "list_all isDigit (take n s)" "a = take n s" "b = drop n s"
    by (auto simp: digits_def split: if_splits)
  then show "s = a @ b \<and> digit_string n a"
    by (simp add: digit_string_def)
next
  assume "s = a @ b \<and> digit_string n a"
  then show "digits n s = Some (a, b)"
    by (simp add: digits_def digit_string_def)
qed

lemma digits_append: "digit_string n a \<Longrightarrow> digits n (a @ b) = Some (a, b)"
  by (simp add: digits_Some)

lemma lit_Some: "lit c s = Some r \<longleftrightarrow> s = c # r"
  by (auto simp: lit_def split: list.splits)

lemma plus_or_minus_Some:
  "plus_or_minus s = Some r \<longleftrightarrow> s = CHR ''+'' # r \<or> s = CHR ''-'' # r"
  by (auto simp: plus_or_minus_def split: list.splits)

lemma end_of_input_Some: "end_of_input s = Some u \<longleftrightarrow> s = []"
  by (simp add: end_of_input_def)

lemma optional_unit:
  "optional item rest s = Some () \<longleftrightarrow> (\<exists>r. item s = Some r \<and> rest r = Some ()) \<or> rest s = Some ()"
  by (cases "item s") (auto simp: optional_def split: option.splits)

lemma isDigit_not_punct:
  assumes "isDigit c"
  shows "c \<noteq> CHR ''+''" "c \<noteq> CHR ''-''" "c \<noteq> CHR '':''" "c \<noteq> CHR ''.''"
  using assms by (auto simp: isDigit_def)

lemma digit_string_Cons:
  assumes "digit_string n (c # r)"
  shows "isDigit c"
  using assms by (simp add: digit_string_def)

lemma digit_string_nonempty: "digit_string n z \<Longrightarrow> 0 < n \<Longrightarrow> \<exists>c r. z = c # r \<and> isDigit c"
  by (cases z) (auto simp: digit_string_def)

lemma minutes_pattern:
  "(do { (mm, s4) \<leftarrow> digits 2 s3; end_of_input s4 }) = Some () \<longleftrightarrow> digit_string 2 s3"
  by (auto simp: bind_eq_Some_conv digits_Some end_of_input_Some)

lemma colon_minutes_iff:
  "colon_minutes s2 = Some () \<longleftrightarrow> (\<exists>c mm. s2 = c @ mm \<and> (c = [] \<or> c = '':'') \<and> digit_string 2 mm)"
proof -
  have "colon_minutes s2 = Some () \<longleftrightarrow> (\<exists>r. s2 = CHR '':'' # r \<and> digit_string 2 r) \<or> digit_string 2 s2"
    unfolding colon_minutes_def optional_unit lit_Some minutes_pattern ..
  also have "\<dots> \<longleftrightarrow> (\<exists>c mm. s2 = c @ mm \<and> (c = [] \<or> c = '':'') \<and> digit_string 2 mm)"
  proof
    assume "(\<exists>r. s2 = CHR '':'' # r \<and> digit_string 2 r) \<or> digit_string 2 s2"
    then show "\<exists>c mm. s2 = c @ mm \<and> (c = [] \<or> c = '':'') \<and> digit_string 2 mm"
    proof
      assume "\<exists>r. s2 = CHR '':'' # r \<and> digit_string 2 r"
      then obtain r where "s2 = '':'' @ r" "digit_string 2 r" by auto
      then show ?thesis by blast
    next
      assume "digit_string 2 s2"
      then have "s2 = [] @ s2 \<and> ([] = [] \<or> [] = '':'') \<and> digit_string 2 s2" by simp
      then show ?thesis by blast
    qed
  next
    assume "\<exists>c mm. s2 = c @ mm \<and> (c = [] \<or> c = '':'') \<and> digit_string 2 mm"
    then obtain c mm where "s2 = c @ mm" "c = [] \<or> c = '':''" "digit_string 2 mm" by blast
    then show "(\<exists>r. s2 = CHR '':'' # r \<and> digit_string 2 r) \<or> digit_string 2 s2"
      by auto
  qed
  finally show ?thesis .
qed

lemma hours_minutes_iff:
  "hours_minutes s1 = Some () \<longleftrightarrow>
     (\<exists>hh c mm. s1 = hh @ c @ mm \<and> digit_string 2 hh \<and> (c = [] \<or> c = '':'') \<and> digit_string 2 mm)"
proof -
  have "hours_minutes s1 = Some () \<longleftrightarrow>
      (\<exists>hh s2. s1 = hh @ s2 \<and> digit_string 2 hh \<and> colon_minutes s2 = Some ())"
    by (simp add: hours_minutes_def bind_eq_Some_conv digits_Some)
  also have "\<dots> \<longleftrightarrow>
     (\<exists>hh c mm. s1 = hh @ c @ mm \<and> digit_string 2 hh \<and> (c = [] \<or> c = '':'') \<and> digit_string 2 mm)"
    unfolding colon_minutes_iff by blast
  finally show ?thesis .
qed

lemma offset_pattern_hours_minutes:
  "offset_pattern z = optional plus_or_minus hours_minutes z"
  by (simp add: offset_pattern_def hours_minutes_def [abs_def] colon_minutes_def [abs_def])

lemma offset_pattern_iff: "offset_pattern z = Some () \<longleftrightarrow> iso_offset z"
proof -
  have "offset_pattern z = Some () \<longleftrightarrow>
      (\<exists>r. (z = CHR ''+'' # r \<or> z = CHR ''-'' # r) \<and> hours_minutes r = Some ())
      \<or> hours_minutes z = Some ()"
    unfolding offset_pattern_hours_minutes optional_unit plus_or_minus_Some ..
  also have "\<dots> \<longleftrightarrow> (\<exists>sg r. z = sg @ r \<and> (sg = [] \<or> sg = ''+'' \<or> sg = ''-'') \<and> hours_minutes r = Some ())"
  proof
    assume "(\<exists>r. (z = CHR ''+'' # r \<or> z = CHR ''-'' # r) \<and> hours_minutes r = Some ())
      \<or> hours_minutes z = Some ()"
    then show "\<exists>sg r. z = sg @ r \<and> (sg = [] \<or> sg = ''+'' \<or> sg = ''-'') \<and> hours_minutes r = Some ()"
    proof
      assume "\<exists>r. (z = CHR ''+'' # r \<or> z = CHR ''-'' # r) \<and> hours_minutes r = Some ()"
      then obtain r where "z = ''+'' @ r \<or> z = ''-'' @ r" "hours_minutes r = Some ()" by auto
      then show ?thesis by blast
    next
      assume "hours_minutes z = Some ()"
      then have "z = [] @ z \<and> ([] = [] \<or> [] = ''+'' \<or> [] = ''-'') \<and> hours_minutes z = Some ()"
        by simp
      then show ?thesis by blast
    qed
  next
    assume "\<exists>sg r. z = sg @ r \<and> (sg = [] \<or> sg = ''+'' \<or> sg = ''-'') \<and> hours_minutes r = Some ()"
    then obtain sg r where "z = sg @ r" "sg = [] \<or> sg = ''+'' \<or> sg = ''-''"
      "hours_minutes r = Some ()" by blast
    then show "(\<exists>r. (z = CHR ''+'' # r \<or> z = CHR ''-'' # r) \<and> hours_minutes r = Some ())
      \<or> hours_minutes z = Some ()"
      by auto
  qed
  also have "\<dots> \<longleftrightarrow> iso_offset z"
    unfolding hours_minutes_iff iso_offset_def by blast
  finally show ?thesis .
qed

lemma iso_offset_head:
  assumes "iso_offset z"
  shows "\<exists>c r. z = c # r \<and> c \<noteq> CHR ''.''"
proof -
  obtain sg hh c mm where z: "z = sg @ hh @ c @ mm" and sg: "sg = [] \<or> sg = ''+'' \<or> sg = ''-''"
    and hh: "digit_string 2 hh"
    using assms unfolding iso_offset_def by blast
  obtain d r where d: "hh = d # r" "isDigit d"
    using digit_string_nonempty [OF hh] by auto
  show ?thesis
    using sg z d isDigit_not_punct(4) [OF d(2)] by auto
qed

lemma with_fraction_iff:
  "do { s12 \<leftarrow> lit CHR ''.'' s11; (r7, s13) \<leftarrow> digits 3 s12; _ \<leftarrow> offset_pattern s13; Some (r7, s13) }
     = Some (f, z)
   \<longleftrightarrow> s11 = ''.'' @ f @ z \<and> digit_string 3 f \<and> iso_offset z"
  by (auto simp: bind_eq_Some_conv lit_Some digits_Some offset_pattern_iff)

lemma fraction_offset_iff:
  "fraction_offset s11 = Some (r7, r8) \<longleftrightarrow>
     s11 = (case r7 of None \<Rightarrow> [] | Some f \<Rightarrow> ''.'' @ f) @ r8
     \<and> (case r7 of None \<Rightarrow> True | Some f \<Rightarrow> digit_string 3 f) \<and> iso_offset r8"
proof -
  define F where "F = do {
      s12 \<leftarrow> lit CHR ''.'' s11;
      (r7, s13) \<leftarrow> digits 3 s12;
      _ \<leftarrow> offset_pattern s13;
      Some (r7, s13) }"
  have F: "F = Some (f, z) \<longleftrightarrow> s11 = ''.'' @ f @ z \<and> digit_string 3 f \<and> iso_offset z" for f z
    unfolding F_def by (rule with_fraction_iff)
  have fo: "fraction_offset s11 =
      (case F of Some (r7, r8) \<Rightarrow> Some (Some r7, r8)
       | None \<Rightarrow> do { _ \<leftarrow> offset_pattern s11; Some (None, s11) })"
    by (simp add: fraction_offset_def F_def)
  show ?thesis
  proof (cases F)
    case None
    have fo': "fraction_offset s11 = do { _ \<leftarrow> offset_pattern s11; Some (None, s11) }"
      by (simp add: fo None)
    show ?thesis
    proof (cases r7)
      case r7: None
      have "fraction_offset s11 = Some (None, r8) \<longleftrightarrow> s11 = r8 \<and> iso_offset r8"
        unfolding fo' by (cases "offset_pattern s11") (auto simp: offset_pattern_iff [symmetric])
      then show ?thesis
        by (simp add: r7)
    next
      case r7: (Some f)
      have "\<not> (s11 = ''.'' @ f @ r8 \<and> digit_string 3 f \<and> iso_offset r8)"
        using F [of f r8] None by simp
      moreover have "fraction_offset s11 \<noteq> Some (Some f, r8)"
        unfolding fo' by (cases "offset_pattern s11") simp_all
      ultimately show ?thesis
        by (simp add: r7)
    qed
  next
    case (Some p)
    obtain f z where p: "p = (f, z)" by (cases p)
    have fz: "s11 = ''.'' @ f @ z" "digit_string 3 f" "iso_offset z"
      using F [of f z] Some p by simp_all
    have fo': "fraction_offset s11 = Some (Some f, z)"
      by (simp add: fo Some p)
    show ?thesis
    proof (cases r7)
      case r7: None
      have "\<not> iso_offset s11"
        using iso_offset_head [of s11] fz(1) by auto
      then have "\<not> (s11 = r8 \<and> iso_offset r8)"
        by blast
      then show ?thesis
        by (simp add: r7 fo')
    next
      case r7: (Some f')
      have "f' = f \<and> r8 = z" if "s11 = ''.'' @ f' @ r8" "digit_string 3 f'"
      proof -
        have "f' @ r8 = f @ z" using that(1) fz(1) by simp
        moreover have "length f' = length f"
          using that(2) fz(2) by (simp add: digit_string_def)
        ultimately show ?thesis by simp
      qed
      then have uniq: "s11 = ''.'' @ f' @ r8 \<and> digit_string 3 f' \<and> iso_offset r8 \<Longrightarrow> f' = f \<and> r8 = z"
        by blast
      have "fraction_offset s11 = Some (Some f', r8) \<longleftrightarrow> f' = f \<and> r8 = z"
        unfolding fo' by auto
      also have "\<dots> \<longleftrightarrow> s11 = ''.'' @ f' @ r8 \<and> digit_string 3 f' \<and> iso_offset r8"
      proof
        assume "f' = f \<and> r8 = z"
        then show "s11 = ''.'' @ f' @ r8 \<and> digit_string 3 f' \<and> iso_offset r8"
          using fz by simp
      next
        assume "s11 = ''.'' @ f' @ r8 \<and> digit_string 3 f' \<and> iso_offset r8"
        then show "f' = f \<and> r8 = z"
          by (rule uniq)
      qed
      finally show ?thesis
        by (simp add: r7)
    qed
  qed
qed

lemma fraction_offset_tail:
  "(case do {
           s12 \<leftarrow> lit CHR ''.'' s11;
           (r7, s13) \<leftarrow> digits 3 s12;
           _ \<leftarrow> offset_pattern s13;
           Some (r7, s13)
         } of
      Some (r7, r8) \<Rightarrow> Some (r1, r2, r3, r4, r5, r6, Some r7, r8)
    | None \<Rightarrow> do { _ \<leftarrow> offset_pattern s11; Some (r1, r2, r3, r4, r5, r6, None, s11) })
   = do { (r7, r8) \<leftarrow> fraction_offset s11; Some (r1, r2, r3, r4, r5, r6, r7, r8) }"
  unfolding fraction_offset_def
  by (cases "offset_pattern s11") (simp_all split: option.splits prod.splits)

lemma iso_exec_fraction_offset:
  "iso_exec dateTime =
     do {
       (r1, s1) \<leftarrow> digits 4 dateTime;
       s2 \<leftarrow> lit CHR ''-'' s1;
       (r2, s3) \<leftarrow> digits 2 s2;
       s4 \<leftarrow> lit CHR ''-'' s3;
       (r3, s5) \<leftarrow> digits 2 s4;
       s6 \<leftarrow> lit CHR ''T'' s5;
       (r4, s7) \<leftarrow> digits 2 s6;
       s8 \<leftarrow> lit CHR '':'' s7;
       (r5, s9) \<leftarrow> digits 2 s8;
       s10 \<leftarrow> lit CHR '':'' s9;
       (r6, s11) \<leftarrow> digits 2 s10;
       (r7, r8) \<leftarrow> fraction_offset s11;
       Some (r1, r2, r3, r4, r5, r6, r7, r8)
     }"
  unfolding iso_exec_def fraction_offset_tail ..

lemma iso_exec_Some_iff:
  "iso_exec s = Some (r1, r2, r3, r4, r5, r6, r7, r8) \<longleftrightarrow>
     s = r1 @ ''-'' @ r2 @ ''-'' @ r3 @ ''T'' @ r4 @ '':'' @ r5 @ '':'' @ r6
         @ (case r7 of None \<Rightarrow> [] | Some f \<Rightarrow> ''.'' @ f) @ r8
     \<and> digit_string 4 r1 \<and> digit_string 2 r2 \<and> digit_string 2 r3 \<and> digit_string 2 r4
     \<and> digit_string 2 r5 \<and> digit_string 2 r6
     \<and> (case r7 of None \<Rightarrow> True | Some f \<Rightarrow> digit_string 3 f) \<and> iso_offset r8"
  unfolding iso_exec_fraction_offset
  by (simp add: bind_eq_Some_conv digits_Some lit_Some fraction_offset_iff)

lemma iso_exec_grammar: "iso_exec s \<noteq> None \<longleftrightarrow> iso_grammar s"
proof
  assume "iso_exec s \<noteq> None"
  then obtain r1 r2 r3 r4 r5 r6 r7 r8 where "iso_exec s = Some (r1, r2, r3, r4, r5, r6, r7, r8)"
    by (cases "iso_exec s") auto
  then have *: "s = r1 @ ''-'' @ r2 @ ''-'' @ r3 @ ''T'' @ r4 @ '':'' @ r5 @ '':'' @ r6
         @ (case r7 of None \<Rightarrow> [] | Some f \<Rightarrow> ''.'' @ f) @ r8
     \<and> digit_string 4 r1 \<and> digit_string 2 r2 \<and> digit_string 2 r3 \<and> digit_string 2 r4
     \<and> digit_string 2 r5 \<and> digit_string 2 r6
     \<and> (case r7 of None \<Rightarrow> True | Some f \<Rightarrow> digit_string 3 f) \<and> iso_offset r8"
    by (simp only: iso_exec_Some_iff)
  define fraction where "fraction = (case r7 of None \<Rightarrow> [] | Some f \<Rightarrow> ''.'' @ f)"
  have "fraction = [] \<or> (\<exists>f. fraction = ''.'' @ f \<and> digit_string 3 f)"
    using * by (cases r7) (simp_all add: fraction_def)
  with * show "iso_grammar s"
    unfolding iso_grammar_def fraction_def [symmetric] by blast
next
  assume "iso_grammar s"
  then obtain year month day hour minute second fraction z where
    s: "s = year @ ''-'' @ month @ ''-'' @ day @ ''T'' @ hour @ '':'' @ minute @ '':'' @ second
            @ fraction @ z"
    and d: "digit_string 4 year" "digit_string 2 month" "digit_string 2 day" "digit_string 2 hour"
      "digit_string 2 minute" "digit_string 2 second"
    and f: "fraction = [] \<or> (\<exists>f. fraction = ''.'' @ f \<and> digit_string 3 f)"
    and z: "iso_offset z"
    unfolding iso_grammar_def by blast
  from f obtain r7 where r7: "fraction = (case r7 of None \<Rightarrow> [] | Some f \<Rightarrow> ''.'' @ f)"
    "(case r7 of None \<Rightarrow> True | Some f \<Rightarrow> digit_string 3 f)"
  proof
    assume "fraction = []"
    then have "fraction = (case None of None \<Rightarrow> [] | Some f \<Rightarrow> ''.'' @ f)"
      "(case None :: string option of None \<Rightarrow> True | Some f \<Rightarrow> digit_string 3 f)"
      by simp_all
    then show ?thesis by (rule that)
  next
    assume "\<exists>f. fraction = ''.'' @ f \<and> digit_string 3 f"
    then obtain f where "fraction = ''.'' @ f" "digit_string 3 f" by blast
    then have "fraction = (case Some f of None \<Rightarrow> [] | Some f \<Rightarrow> ''.'' @ f)"
      "(case Some f of None \<Rightarrow> True | Some f \<Rightarrow> digit_string 3 f)"
      by simp_all
    then show ?thesis by (rule that)
  qed
  have "iso_exec s = Some (year, month, day, hour, minute, second, r7, z)"
    unfolding iso_exec_Some_iff using s d r7 z by simp
  then show "iso_exec s \<noteq> None" by simp
qed

lemma parse_no_match:
  "iso_exec s = None \<Longrightarrow> parse ntz clock s = Inl (DateTimeError (shape_message s))"
  by (simp add: parse_def shape_message_def)

lemma parse_match:
  "iso_exec s = Some (r1, r2, r3, r4, r5, r6, r7, r8) \<Longrightarrow>
   parse ntz clock s =
     (case ntz r8 of
        Inl e \<Rightarrow> Inl e
      | Inr tz \<Rightarrow>
          fromDateTime clock (parseInt r1) (parseInt r2) (parseInt r3) (parseInt r4) (parseInt r5)
            (parseInt r6) (case r7 of None \<Rightarrow> Some 0 | Some f \<Rightarrow> parseInt f) tz)"
  by (simp add: parse_def)

lemma fromDateTime_not_shape_error:
  "fromDateTime clock year month day hour minute second ms tz \<noteq> Inl (DateTimeError (shape_message s))"
  by (simp add: fromDateTime_def shape_message_def Let_def)

text \<open>
  C7. \<open>parse\<close> throws the error \<open>Expected valid ISO8601 date-time, found "<input>".\<close>,
  with the whole input, for every string outside the grammar, before any field is
  looked at. For a string of the grammar the groups of the match are its components,
  the offset goes to the constructor of \<open>TimeZone\<close> and the numbers go to
  \<open>fromDateTime\<close>, whose errors are the field errors and never the shape error. So,
  when the constructor of \<open>TimeZone\<close> accepts the offsets of the grammar, the shape error
  is thrown exactly for the strings outside the grammar.
\<close>

theorem parse_shape_error:
  "(\<not> iso_grammar s \<longrightarrow> parse TimeZone_new clock s = Inl (DateTimeError (shape_message s)))
   \<and> (iso_grammar s \<longrightarrow>
        (\<exists>r1 r2 r3 r4 r5 r6 r7 r8.
           s = r1 @ ''-'' @ r2 @ ''-'' @ r3 @ ''T'' @ r4 @ '':'' @ r5 @ '':'' @ r6
               @ (case r7 of None \<Rightarrow> [] | Some f \<Rightarrow> ''.'' @ f) @ r8
           \<and> iso_offset r8
           \<and> parse TimeZone_new clock s =
               (case TimeZone_new r8 of
                  Inl e \<Rightarrow> Inl e
                | Inr tz \<Rightarrow>
                    fromDateTime clock (parseInt r1) (parseInt r2) (parseInt r3) (parseInt r4)
                      (parseInt r5) (parseInt r6)
                      (case r7 of None \<Rightarrow> Some 0 | Some f \<Rightarrow> parseInt f) tz)))
   \<and> (\<forall>year month day hour minute second ms tz.
         fromDateTime clock year month day hour minute second ms tz \<noteq>
           Inl (DateTimeError (shape_message s)))
   \<and> ((\<forall>z. iso_offset z \<longrightarrow> (\<exists>tz. TimeZone_new z = Inr tz)) \<longrightarrow>
        (parse TimeZone_new clock s = Inl (DateTimeError (shape_message s))) = (\<not> iso_grammar s))"
proof -
  have out: "parse TimeZone_new clock s = Inl (DateTimeError (shape_message s))"
    if "\<not> iso_grammar s"
  proof -
    have "iso_exec s = None"
      using that iso_exec_grammar [of s] by blast
    then show ?thesis
      by (rule parse_no_match)
  qed
  have inside: "\<exists>r1 r2 r3 r4 r5 r6 r7 r8.
           s = r1 @ ''-'' @ r2 @ ''-'' @ r3 @ ''T'' @ r4 @ '':'' @ r5 @ '':'' @ r6
               @ (case r7 of None \<Rightarrow> [] | Some f \<Rightarrow> ''.'' @ f) @ r8
           \<and> iso_offset r8
           \<and> parse TimeZone_new clock s =
               (case TimeZone_new r8 of
                  Inl e \<Rightarrow> Inl e
                | Inr tz \<Rightarrow>
                    fromDateTime clock (parseInt r1) (parseInt r2) (parseInt r3) (parseInt r4)
                      (parseInt r5) (parseInt r6)
                      (case r7 of None \<Rightarrow> Some 0 | Some f \<Rightarrow> parseInt f) tz)"
    if "iso_grammar s"
  proof -
    have "iso_exec s \<noteq> None"
      using that iso_exec_grammar [of s] by blast
    then obtain r1 r2 r3 r4 r5 r6 r7 r8 where ex: "iso_exec s = Some (r1, r2, r3, r4, r5, r6, r7, r8)"
      by (cases "iso_exec s") auto
    have "s = r1 @ ''-'' @ r2 @ ''-'' @ r3 @ ''T'' @ r4 @ '':'' @ r5 @ '':'' @ r6
               @ (case r7 of None \<Rightarrow> [] | Some f \<Rightarrow> ''.'' @ f) @ r8" "iso_offset r8"
      using ex by (simp_all only: iso_exec_Some_iff)
    with parse_match [OF ex] show ?thesis by blast
  qed
  have never: "parse TimeZone_new clock s \<noteq> Inl (DateTimeError (shape_message s))"
    if "iso_grammar s" and tz: "\<forall>z. iso_offset z \<longrightarrow> (\<exists>tz. TimeZone_new z = Inr tz)"
  proof -
    have "iso_exec s \<noteq> None"
      using that(1) iso_exec_grammar [of s] by blast
    then obtain r1 r2 r3 r4 r5 r6 r7 r8 where ex: "iso_exec s = Some (r1, r2, r3, r4, r5, r6, r7, r8)"
      by (cases "iso_exec s") auto
    have "iso_offset r8"
      using ex by (simp only: iso_exec_Some_iff)
    then obtain z where "TimeZone_new r8 = Inr z"
      using tz by blast
    then show ?thesis
      by (simp add: parse_match [OF ex] fromDateTime_not_shape_error)
  qed
  show ?thesis
    using out inside never fromDateTime_not_shape_error by blast
qed

lemma TimeZone_fromOffsetString_accepts:
  "iso_offset z \<Longrightarrow> \<exists>tz. TimeZone_fromOffsetString z = Inr tz"
  by (simp add: TimeZone_fromOffsetString_def offset_pattern_iff [symmetric] Let_def)

theorem parse_shape_error_witness:
  "parse TimeZone_fromOffsetString 0 ''197-01-01T00:00:00+00:00'' =
     Inl (DateTimeError (shape_message ''197-01-01T00:00:00+00:00''))
   \<and> parse TimeZone_fromOffsetString 0 ''1970-13-32T25:00:00+00:00'' \<noteq>
     Inl (DateTimeError (shape_message ''1970-13-32T25:00:00+00:00''))
   \<and> parse TimeZone_fromOffsetString 0 ''1970-13-32T25:00:00+00:00'' =
     Inl (DateTimeError ''Expected valid month, found 13.'')"
proof -
  have no: "\<not> iso_grammar ''197-01-01T00:00:00+00:00''"
  proof -
    have "iso_exec ''197-01-01T00:00:00+00:00'' = None" by code_simp
    then show ?thesis using iso_exec_grammar [of "''197-01-01T00:00:00+00:00''"] by blast
  qed
  have yes: "iso_grammar ''1970-13-32T25:00:00+00:00''"
  proof -
    have "iso_exec ''1970-13-32T25:00:00+00:00'' \<noteq> None" by code_simp
    then show ?thesis by (simp only: iso_exec_grammar)
  qed
  have accepts: "\<forall>z. iso_offset z \<longrightarrow> (\<exists>tz. TimeZone_fromOffsetString z = Inr tz)"
    using TimeZone_fromOffsetString_accepts by blast
  note main = parse_shape_error [of _ TimeZone_fromOffsetString 0]
  have a: "parse TimeZone_fromOffsetString 0 ''197-01-01T00:00:00+00:00'' =
     Inl (DateTimeError (shape_message ''197-01-01T00:00:00+00:00''))"
    using main [of "''197-01-01T00:00:00+00:00''"] no by blast
  have b: "parse TimeZone_fromOffsetString 0 ''1970-13-32T25:00:00+00:00'' \<noteq>
     Inl (DateTimeError (shape_message ''1970-13-32T25:00:00+00:00''))"
    using main [of "''1970-13-32T25:00:00+00:00''"] yes accepts by blast
  have c: "parse TimeZone_fromOffsetString 0 ''1970-13-32T25:00:00+00:00'' =
     Inl (DateTimeError ''Expected valid month, found 13.'')"
    by code_simp
  show ?thesis
    using a b c by simp
qed

subsection \<open>The numbers of digit strings\<close>








section \<open>The ranges of the cached fields\<close>



lemma js_le_SomeD:
  "js_le (Some a) v \<Longrightarrow> \<exists>x. v = Some x \<and> a \<le> x"
  "js_le v (Some b) \<Longrightarrow> \<exists>x. v = Some x \<and> x \<le> b"
  by (cases v; simp)+

lemma fromDateTime_Inr_valid:
  assumes "fromDateTime clock year month day hour minute second ms tz = Inr dt"
  shows "isValidYear year" "isValidMonth month" "isValidDay day month year" "isValidHour hour"
    "isValidMinute minute" "isValidSecond second" "isValidMs ms"
  using assms by (simp_all add: fromDateTime_def split: if_splits)

lemma fromDateTime_in_range:
  assumes "fromDateTime clock (Some y) (Some mo) (Some d) hour minute second ms tz = Inr dt"
    and "within_Date_range y mo d"
  shows "fields_in_range dt"
proof -
  note v = fromDateTime_Inr_valid [OF assms(1)]
  obtain h where h: "hour = Some h" "0 \<le> h" "h \<le> 23"
    using v(4) by (cases hour) (simp_all add: isValidHour_def)
  obtain mi where mi: "minute = Some mi" "0 \<le> mi" "mi \<le> 59"
    using v(5) by (cases minute) (simp_all add: isValidMinute_def)
  obtain s where s: "second = Some s" "0 \<le> s" "s \<le> 59"
    using v(6) by (cases second) (simp_all add: isValidSecond_def)
  obtain m where m: "ms = Some m" "0 \<le> m" "m \<le> 999"
    using v(7) by (cases ms) (simp_all add: isValidMs_def)
  have ymo: "0 \<le> y" "1 \<le> mo" "mo \<le> 12"
    using v(1,2) by simp_all
  have d: "1 \<le> d" "d \<le> month_length mo y"
    using v(3) ymo by (simp_all add: isValidDay_iff)
  note f = fromDateTime_fields [OF ymo d h(2,3) mi(2,3) s(2,3) m(2,3) assms(2), of clock tz]
  have dt: "dt = \<lparr>m_timestamp = Some (utc_epoch_ms y mo d h mi s m - offset tz * 60000),
         m_year = Some y, m_month = Some mo, m_day = Some d,
         m_weekday = Some (WeekDay (utc_epoch_ms y mo d h mi s m)),
         m_hour = Some h, m_minute = Some mi, m_second = Some s, m_ms = Some m,
         m_timezone = tz\<rparr>"
    using assms(1) f by (simp add: h(1) mi(1) s(1) m(1))
  show ?thesis
    unfolding dt fields_in_range_def
    using ymo d h(2,3) mi(2,3) s(2,3) m(2,3) time_ranges(9,10) [of "utc_epoch_ms y mo d h mi s m"]
    by simp
qed





section \<open>toISOString and parse\<close>

lemma isDigit_digit_char: "n < 10 \<Longrightarrow> isDigit (digit_char n)"
proof -
  assume small: "n < 10"
  have "list_all (\<lambda>k. isDigit (digit_char k)) [0..<10]"
    by code_simp
  then have "\<forall>k\<in>set [0..<10]. isDigit (digit_char k)"
    by (simp only: list_all_iff)
  moreover have "n \<in> set [0..<10]"
    using small by simp
  ultimately show ?thesis
    by blast
qed

lemma string_of_nat_digits: "list_all isDigit (string_of_nat n)"
proof (induction n rule: string_of_nat.induct)
  case (1 n)
  show ?case
  proof (cases "n < 10")
    case True
    then show ?thesis
      by (simp add: string_of_nat.simps [of n] isDigit_digit_char)
  next
    case False
    then show ?thesis
      using 1 by (simp add: string_of_nat.simps [of n] isDigit_digit_char)
  qed
qed

lemma string_of_nat_length: "0 < k \<Longrightarrow> n < 10 ^ k \<Longrightarrow> length (string_of_nat n) \<le> k"
proof (induction k arbitrary: n)
  case 0
  then show ?case by simp
next
  case (Suc k)
  show ?case
  proof (cases "n < 10")
    case True
    then show ?thesis
      by (simp add: string_of_nat.simps [of n])
  next
    case False
    then have k: "0 < k"
      using Suc.prems(2) by (cases k) simp_all
    have "n div 10 < 10 ^ k"
      using Suc.prems(2) by (simp add: less_mult_imp_div_less mult.commute)
    then have "length (string_of_nat (n div 10)) \<le> k"
      using Suc.IH k by simp
    then show ?thesis
      using False by (simp add: string_of_nat.simps [of n])
  qed
qed

lemma string_of_nat_nonempty: "string_of_nat n \<noteq> []"
  by (simp add: string_of_nat.simps [of n])

lemma Number_toString_nat:
  "0 \<le> v \<Longrightarrow> Number_toString (Some v) = string_of_nat (nat v)"
  by (simp add: Number_toString_def)

lemma pad_digit_string:
  assumes "0 \<le> v" "v < 10 ^ k" "0 < k"
  shows "digit_string k (pad (Some v) (Some (int k)) ''0'')"
proof -
  define str where "str = string_of_nat (nat v)"
  have "nat v < 10 ^ k"
    using assms(1,2) by (metis nat_less_iff of_nat_numeral of_nat_power)
  then have len: "length str \<le> k"
    unfolding str_def using assms(3) by (intro string_of_nat_length)
  have "pad (Some v) (Some (int k)) ''0'' = replicate (k - length str) CHR ''0'' @ str"
    using len by (simp add: pad_zero Number_toString_nat [OF assms(1)] str_def [symmetric] nat_diff_distrib')
  moreover have "isDigit CHR ''0''"
    by (simp add: isDigit_def)
  ultimately show ?thesis
    using len string_of_nat_digits [of "nat v"]
    by (auto simp: digit_string_def str_def [symmetric] list_all_iff)
qed

lemmas pad_2 = pad_digit_string [where k = 2, simplified]
lemmas pad_4 = pad_digit_string [where k = 4, simplified]

lemma formatter_Z_sign:
  "\<exists>c r. formatter_Z dt args = c # r \<and> (c = CHR ''+'' \<or> c = CHR ''-'')"
  by (simp add: formatter_Z_def)

text \<open>
  A string whose seconds are followed by a dot, one or two digits and a sign is not
  matched by the regular expression of \<open>parse\<close>.
\<close>

lemma short_fraction_no_match:
  assumes d: "digit_string 4 Y" "digit_string 2 M" "digit_string 2 D" "digit_string 2 h"
    "digit_string 2 m" "digit_string 2 s2"
    and s1: "s1 \<noteq> []" "length s1 \<le> 2"
    and Z: "Z = c # r" "c = CHR ''+'' \<or> c = CHR ''-''"
  shows "iso_exec (Y @ ''-'' @ M @ ''-'' @ D @ ''T'' @ h @ '':'' @ m @ '':'' @ s2 @ ''.'' @ s1 @ Z)
    = None"
proof (rule ccontr)
  let ?str = "Y @ ''-'' @ M @ ''-'' @ D @ ''T'' @ h @ '':'' @ m @ '':'' @ s2 @ ''.'' @ s1 @ Z"
  assume "iso_exec ?str \<noteq> None"
  then obtain r1 r2 r3 r4 r5 r6 r7 r8 where "iso_exec ?str = Some (r1, r2, r3, r4, r5, r6, r7, r8)"
    by (cases "iso_exec ?str") auto
  then have eq: "?str = r1 @ ''-'' @ r2 @ ''-'' @ r3 @ ''T'' @ r4 @ '':'' @ r5 @ '':'' @ r6
         @ (case r7 of None \<Rightarrow> [] | Some f \<Rightarrow> ''.'' @ f) @ r8"
    and r: "digit_string 4 r1" "digit_string 2 r2" "digit_string 2 r3" "digit_string 2 r4"
      "digit_string 2 r5" "digit_string 2 r6"
    and f: "(case r7 of None \<Rightarrow> True | Some f \<Rightarrow> digit_string 3 f)"
    and off: "iso_offset r8"
    by (simp_all only: iso_exec_Some_iff)
  have len: "length Y = length r1" "length M = length r2" "length D = length r3"
    "length h = length r4" "length m = length r5" "length s2 = length r6"
    using d r by (simp_all add: digit_string_def)
  have tail: "''.'' @ s1 @ Z = (case r7 of None \<Rightarrow> [] | Some f \<Rightarrow> ''.'' @ f) @ r8"
    using eq len by simp
  show False
  proof (cases r7)
    case None
    then have "r8 = CHR ''.'' # s1 @ Z"
      using tail by simp
    then show False
      using iso_offset_head [OF off] by simp
  next
    case (Some f)
    then have fr: "f @ r8 = s1 @ Z" and f3: "length f = 3" "list_all isDigit f"
      using tail f by (simp_all add: digit_string_def)
    have i: "length s1 < length f"
      using s1(2) f3(1) by simp
    have "f ! length s1 = (f @ r8) ! length s1"
      using i by (simp add: nth_append)
    also have "\<dots> = c"
      unfolding fr by (simp add: nth_append Z(1))
    finally have "isDigit c"
      using f3(2) i by (metis list_all_length)
    then show False
      using Z(2) isDigit_not_punct(1,2) by blast
  qed
qed

lemma toISOString_no_match:
  assumes "fields_in_range dt"
  shows "\<exists>str. toISOString [] dt = Inr str \<and> iso_exec str = None"
proof -
  obtain y mo d w h mi s ms where
    dt: "m_year dt = Some y" "m_month dt = Some mo" "m_day dt = Some d" "m_hour dt = Some h"
      "m_minute dt = Some mi" "m_second dt = Some s"
    and r: "0 \<le> y" "1 \<le> mo" "mo \<le> 12" "1 \<le> d" "d \<le> month_length mo y" "0 \<le> h" "h \<le> 23"
      "0 \<le> mi" "mi \<le> 59" "0 \<le> s" "s \<le> 59"
    using assms by (auto simp: fields_in_range_def split: option.splits)
  have d31: "d \<le> 31"
    using r(5) by (auto simp: month_length_def split: if_splits)
  have Y: "digit_string 4 (formatter_Y dt None)"
    using r(1) by (simp add: formatter_Y_def dt js_rem_def pad_4)
  have M: "digit_string 2 (formatter_M dt None)"
    using r(2,3) by (simp add: formatter_M_def dt pad_2)
  have D: "digit_string 2 (formatter_D dt None)"
    using r(4) d31 by (simp add: formatter_D_def dt pad_2)
  have H: "digit_string 2 (formatter_h dt None)"
    using r(6,7) by (simp add: formatter_h_def dt pad_2)
  have Mi: "digit_string 2 (formatter_m dt None)"
    using r(8,9) by (simp add: formatter_m_def dt pad_2)
  have S2: "digit_string 2 (pad (m_second dt) (Some 2) ''0'')"
    using r(10,11) by (simp add: dt pad_2)
  define s1 where "s1 = string_of_nat (nat s)"
  have s1: "s1 \<noteq> []" "length s1 \<le> 2"
    using r(10,11) string_of_nat_length [of 2 "nat s"]
    by (simp_all add: s1_def string_of_nat_nonempty)
  have "0 < length s1"
    using s1(1) by simp
  then have S1: "pad (m_second dt) (Some 1) ''0'' = s1"
    using r(10) by (simp add: dt pad_zero Number_toString_nat s1_def [symmetric] Suc_le_eq)
  obtain c z where Z: "formatter_Z dt None = c # z" "c = CHR ''+'' \<or> c = CHR ''-''"
    using formatter_Z_sign [of dt None] by blast
  have "iso_exec (formatter_Y dt None @ ''-'' @ formatter_M dt None @ ''-'' @ formatter_D dt None
      @ ''T'' @ formatter_h dt None @ '':'' @ formatter_m dt None @ '':''
      @ pad (m_second dt) (Some 2) ''0'' @ ''.'' @ s1 @ formatter_Z dt None) = None"
    using Y M D H Mi S2 s1 Z by (rule short_fraction_no_match)
  then show ?thesis
    by (simp add: toISOString_parts S1)
qed

text \<open>
  C2. \<open>toISOString\<close> renders the fraction with the specifier \<open>ms\<close>, which gives the second
  with one or two digits where \<open>parse\<close> demands three: for every instance that
  \<open>fromDateTime\<close> returns (for a date in the range of \<open>Date\<close>, whatever the millisecond
  and the time zone), \<open>parse\<close> rejects the string of \<open>toISOString\<close> with the shape
  error. The round trip fails on every such instance.
\<close>

theorem parse_toISOString_shape_error:
  "\<forall>clock year month day hour minute second ms tz dt TimeZone_new clock'.
      fromDateTime clock (Some year) (Some month) (Some day) hour minute second ms tz = Inr dt
      \<and> within_Date_range year month day \<longrightarrow>
      (\<exists>str. toISOString [] dt = Inr str
             \<and> parse TimeZone_new clock' str = Inl (DateTimeError (shape_message str)))"
proof (intro allI impI)
  fix clock year month day :: int and hour minute second ms :: "int option" and tz :: TimeZone
    and dt :: DateTime and TimeZone_new :: "string \<Rightarrow> error + TimeZone" and clock' :: int
  assume "fromDateTime clock (Some year) (Some month) (Some day) hour minute second ms tz = Inr dt
      \<and> within_Date_range year month day"
  then have "fields_in_range dt"
    using fromDateTime_in_range by blast
  then obtain str where "toISOString [] dt = Inr str" "iso_exec str = None"
    using toISOString_no_match by blast
  then show "\<exists>str. toISOString [] dt = Inr str
             \<and> parse TimeZone_new clock' str = Inl (DateTimeError (shape_message str))"
    using parse_no_match by blast
qed

theorem parse_toISOString_shape_error_witness:
  "fromDateTime 0 (Some 1970) (Some 1) (Some 1) (Some 0) (Some 0) (Some 0) (Some 0) utc =
     Inr (fromTimestamp 0 utc)
   \<and> toISOString [] (fromTimestamp 0 utc) = Inr ''1970-01-01T00:00:00.0+00:00''
   \<and> parse TimeZone_fromOffsetString 0 ''1970-01-01T00:00:00.0+00:00'' =
       Inl (DateTimeError (shape_message ''1970-01-01T00:00:00.0+00:00''))"
proof -
  have a: "fromDateTime 0 (Some 1970) (Some 1) (Some 1) (Some 0) (Some 0) (Some 0) (Some 0) utc =
     Inr (fromTimestamp 0 utc)"
    by code_simp
  have b: "toISOString [] (fromTimestamp 0 utc) = Inr ''1970-01-01T00:00:00.0+00:00''"
    by code_simp
  have "within_Date_range 1970 1 1"
    by (simp add: within_Date_range_def)
  with parse_toISOString_shape_error a
  have "\<exists>str. toISOString [] (fromTimestamp 0 utc) = Inr str
      \<and> parse TimeZone_fromOffsetString 0 str = Inl (DateTimeError (shape_message str))"
    by blast
  then have "parse TimeZone_fromOffsetString 0 ''1970-01-01T00:00:00.0+00:00'' =
       Inl (DateTimeError (shape_message ''1970-01-01T00:00:00.0+00:00''))"
    unfolding b by simp
  with a b show ?thesis
    by simp
qed

end
